theory Spec2Isabelle
  imports Complex_Main "HOL-Library.Word"
begin

unbundle bit_operations_syntax

section \<open>Protocol enumerations\<close>

type_synonym byte = "8 word"

text \<open>The packet types of class \<open>Type\<close>, with the byte value of each member.\<close>

datatype Type =
    READ_CARD | PACKET_FROM_SERVER | SHOW_PICTURE | SHOW_QR | REBOOT | PING_SERVER
  | CANCEL_LAST_TRANSACTION | CANCEL_READ_CARD | FILL_SCREEN | WRITE_LINE
  | SERVER_CONNECT_STATE | SET_CUSTOM_VALUE | VEND_REPORT | PACKET_TO_EXT_SERVER
  | CONNECT_STATE_REQUEST | TOUCH | PACKET_TO_SERVER | CARD_READ_RESULT
  | CARD_AUTH_RESULT | ACK | REBOOT_REPORT | CONNECT_STATE_REPORT | PACKET_TO_MASTER
  | WRITE_TEXT_RECT | VEND_REQUEST

fun Type_value :: "Type \<Rightarrow> byte" where
  "Type_value READ_CARD = 0x01"
| "Type_value PACKET_FROM_SERVER = 0x02"
| "Type_value SHOW_PICTURE = 0x03"
| "Type_value SHOW_QR = 0x04"
| "Type_value REBOOT = 0x05"
| "Type_value PING_SERVER = 0x06"
| "Type_value CANCEL_LAST_TRANSACTION = 0x07"
| "Type_value CANCEL_READ_CARD = 0x08"
| "Type_value FILL_SCREEN = 0x09"
| "Type_value WRITE_LINE = 0x0A"
| "Type_value SERVER_CONNECT_STATE = 0x0B"
| "Type_value SET_CUSTOM_VALUE = 0x0C"
| "Type_value VEND_REPORT = 0x0E"
| "Type_value PACKET_TO_EXT_SERVER = 0x0F"
| "Type_value CONNECT_STATE_REQUEST = 0x10"
| "Type_value TOUCH = 0x11"
| "Type_value PACKET_TO_SERVER = 0x12"
| "Type_value CARD_READ_RESULT = 0x13"
| "Type_value CARD_AUTH_RESULT = 0x14"
| "Type_value ACK = 0x15"
| "Type_value REBOOT_REPORT = 0x16"
| "Type_value CONNECT_STATE_REPORT = 0x18"
| "Type_value PACKET_TO_MASTER = 0x1B"
| "Type_value WRITE_TEXT_RECT = 0x30"
| "Type_value VEND_REQUEST = 0x31"

definition Type_members :: "Type list" where
  "Type_members =
     [READ_CARD, PACKET_FROM_SERVER, SHOW_PICTURE, SHOW_QR, REBOOT, PING_SERVER,
      CANCEL_LAST_TRANSACTION, CANCEL_READ_CARD, FILL_SCREEN, WRITE_LINE,
      SERVER_CONNECT_STATE, SET_CUSTOM_VALUE, VEND_REPORT, PACKET_TO_EXT_SERVER,
      CONNECT_STATE_REQUEST, TOUCH, PACKET_TO_SERVER, CARD_READ_RESULT,
      CARD_AUTH_RESULT, ACK, REBOOT_REPORT, CONNECT_STATE_REPORT, PACKET_TO_MASTER,
      WRITE_TEXT_RECT, VEND_REQUEST]"

text \<open>\<open>Type(b)\<close>: the member whose value is \<open>b\<close>; \<open>None\<close> stands for the
  \<open>ValueError\<close> raised on a byte that is no member's value.\<close>

definition Type_of_byte :: "byte \<Rightarrow> Type option" where
  "Type_of_byte b = find (\<lambda>t. Type_value t = b) Type_members"

text \<open>Class \<open>Picture\<close>: the screens of the terminal.\<close>

datatype Picture =
    PRESS_KEY_FOR_PAYMENT | SELECT_GOODS | AUTHORIZATION | SUCCESS | REJECTED
  | UNAVAILABLE | WAIT | ERROR | CUSTOM | CANCEL

fun Picture_value :: "Picture \<Rightarrow> byte" where
  "Picture_value PRESS_KEY_FOR_PAYMENT = 1"
| "Picture_value SELECT_GOODS = 2"
| "Picture_value AUTHORIZATION = 4"
| "Picture_value SUCCESS = 5"
| "Picture_value REJECTED = 6"
| "Picture_value UNAVAILABLE = 8"
| "Picture_value WAIT = 9"
| "Picture_value ERROR = 12"
| "Picture_value CUSTOM = 13"
| "Picture_value CANCEL = 14"

text \<open>Class \<open>ConnectState\<close>: an integer enumeration, compared by value.\<close>

datatype ConnectState =
    NONE | DISCONNECTED | SIM800_FOUND | SIM800_NOT_FOUND | SIM_FOUND | REG_PASSED
  | PHONE_NUM_ACQ | GPRS_ACTIVE | IP_ACQ | SERVER_CONNECTED

fun ConnectState_value :: "ConnectState \<Rightarrow> nat" where
  "ConnectState_value NONE = 0"
| "ConnectState_value DISCONNECTED = 1"
| "ConnectState_value SIM800_FOUND = 2"
| "ConnectState_value SIM800_NOT_FOUND = 3"
| "ConnectState_value SIM_FOUND = 4"
| "ConnectState_value REG_PASSED = 5"
| "ConnectState_value PHONE_NUM_ACQ = 6"
| "ConnectState_value GPRS_ACTIVE = 7"
| "ConnectState_value IP_ACQ = 8"
| "ConnectState_value SERVER_CONNECTED = 9"

fun ConnectState_str :: "ConnectState \<Rightarrow> string" where
  "ConnectState_str NONE = ''None''"
| "ConnectState_str DISCONNECTED = ''Disconnected''"
| "ConnectState_str SIM800_FOUND = ''SIM800 found''"
| "ConnectState_str SIM800_NOT_FOUND = ''SIM800 not found''"
| "ConnectState_str SIM_FOUND = ''SIM found''"
| "ConnectState_str REG_PASSED = ''GSM reg passed''"
| "ConnectState_str PHONE_NUM_ACQ = ''Phone num acquired''"
| "ConnectState_str GPRS_ACTIVE = ''GPRS active''"
| "ConnectState_str IP_ACQ = ''IP acquired''"
| "ConnectState_str SERVER_CONNECTED = ''Server connected''"

definition ConnectState_members :: "ConnectState list" where
  "ConnectState_members =
     [NONE, DISCONNECTED, SIM800_FOUND, SIM800_NOT_FOUND, SIM_FOUND, REG_PASSED,
      PHONE_NUM_ACQ, GPRS_ACTIVE, IP_ACQ, SERVER_CONNECTED]"

text \<open>\<open>ConnectState(b)\<close>, with \<open>None\<close> for the \<open>ValueError\<close>.\<close>

definition ConnectState_of_byte :: "byte \<Rightarrow> ConnectState option" where
  "ConnectState_of_byte b = find (\<lambda>c. ConnectState_value c = unat b) ConnectState_members"

section \<open>Packet codec\<close>

datatype exn = SerialException | RuntimeError | IndexError | StructError | AttributeError

text \<open>One record per logger call site of the source; the formatted text of a message is
  kept as the values it is formatted from.\<close>

datatype log_record =
    Info_port_opened
  | Info_stop_request
  | Info_port_closed
  | Info_stopped
  | Info_connect_state ConnectState
  | Error_connect_state ConnectState
  | Error_serial
  | Error_card_auth_fail
  | Debug_send_packet Type "byte list"
  | Debug_response Type
  | Debug_response_body Type "byte list"
  | Debug_bad_response "byte list"
  | Debug_no_response
  | Debug_invalid_packet "byte list"
  | Debug_invalid_length "byte list"
  | Debug_invalid_crc
  | Debug_unknown_type byte
  | Debug_card_not_found
  | Debug_card_not_readed
  | Debug_card_readed string
  | Debug_card_auth_ok
  | Debug_card_auth_len nat
  | Debug_close_payment

text \<open>Modelled from the spec: the CRC routine \<open>libscrc.hacker16\<close> is a library function
  that is not part of the sources. It is modelled as the CRC-16 the spec names
  (polynomial, initial value and output XOR as passed by the callers, no input or output
  reflection): each byte is XORed into the high half of the register, which is then
  shifted left eight times, the polynomial being XORed in whenever a one is shifted out.\<close>

definition crc16_shift :: "16 word \<Rightarrow> 16 word \<Rightarrow> 16 word" where
  "crc16_shift poly c = (if bit c 15 then push_bit 1 c XOR poly else push_bit 1 c)"

definition crc16_byte :: "16 word \<Rightarrow> 16 word \<Rightarrow> byte \<Rightarrow> 16 word" where
  "crc16_byte poly c b = ((crc16_shift poly) ^^ 8) (c XOR push_bit 8 (ucast b))"

definition hacker16 :: "byte list \<Rightarrow> 16 word \<Rightarrow> 16 word \<Rightarrow> 16 word \<Rightarrow> nat" where
  "hacker16 data poly init xorout = unat (foldl (crc16_byte poly) init data XOR xorout)"

text \<open>\<open>header_format = struct.Struct('<HH')\<close>: two unsigned 16-bit fields, little-endian.
  \<open>pack\<close> raises \<open>struct.error\<close> on a value outside \<open>0..65535\<close>.\<close>

definition header_pack :: "nat \<Rightarrow> nat \<Rightarrow> exn + byte list" where
  "header_pack body_length crc16 =
     (if body_length > 65535 \<or> crc16 > 65535 then Inl StructError
      else Inr [of_nat (body_length mod 256), of_nat (body_length div 256),
                of_nat (crc16 mod 256), of_nat (crc16 div 256)])"

definition header_unpack_from :: "byte list \<Rightarrow> nat \<times> nat" where
  "header_unpack_from data =
     (unat (data ! 0) + 256 * unat (data ! 1), unat (data ! 2) + 256 * unat (data ! 3))"

text \<open>The first lines of \<open>request\<close>: the body is the type byte followed by the data, the
  packet is the packed header followed by the body.\<close>

definition request_body :: "Type \<Rightarrow> byte list option \<Rightarrow> byte list" where
  "request_body packet_type data =
     (case data of Some d \<Rightarrow> Type_value packet_type # d | None \<Rightarrow> [Type_value packet_type])"

definition request_packet :: "Type \<Rightarrow> byte list option \<Rightarrow> exn + byte list" where
  "request_packet packet_type data =
     (let body = request_body packet_type data;
          body_length = length body;
          crc16 = hacker16 body 0x8005 0xFFFF 0xFFFF
      in case header_pack body_length crc16 of
           Inl e \<Rightarrow> Inl e
         | Inr header \<Rightarrow> Inr (header @ body))"

text \<open>\<open>decode\<close> returns the value returned or the exception raised, the buffer as the call
  leaves it, and the records it logged. \<open>body[0]\<close> on an empty body raises \<open>IndexError\<close>,
  which the \<open>except ValueError\<close> clause does not catch.\<close>

definition decode ::
  "byte list \<Rightarrow> (exn + (Type \<times> byte list) option) \<times> byte list \<times> log_record list" where
  "decode data =
     (if length data < 5 then (Inr None, data, [Debug_invalid_packet data])
      else
        let (body_length, crc16) = header_unpack_from data;
            packet_len = body_length + 4
        in if length data < packet_len then (Inr None, data, [Debug_invalid_length data])
           else
             let body = drop 4 (take packet_len data);
                 data' = drop packet_len data;
                 body_crc16 = hacker16 body 0x8005 0xFFFF 0xFFFF
             in if body_crc16 \<noteq> crc16 then (Inr None, data', [Debug_invalid_crc])
                else case body of
                       [] \<Rightarrow> (Inl IndexError, data', [])
                     | b0 # payload \<Rightarrow>
                         (case Type_of_byte b0 of
                            None \<Rightarrow> (Inr None, data', [Debug_unknown_type b0])
                          | Some packet_type \<Rightarrow> (Inr (Some (packet_type, payload)), data', [])))"

section \<open>Session state\<close>

text \<open>The pending payment dictionary, created with the keys \<open>amount\<close>, \<open>active\<close> and
  \<open>time\<close>; \<open>card_number\<close> is added when a card has been read.\<close>

record payment =
  amount :: real
  active :: bool
  time :: real
  card_number :: "string option"

text \<open>The dictionaries put on the event queue; \<open>sender\<close> is always the session itself.\<close>

datatype queue_item =
    Item_touch Type
  | Item_card_auth Type real string
  | Item_connect_state Type string

text \<open>What a call on the serial port does: it raises \<open>SerialException\<close> or returns
  (bytes, for a read).\<close>

datatype io_result = Raises | Returns "byte list"

text \<open>The attributes of a \<open>Vendista\<close> object, the logger and the event queue, and the
  two collaborators the code calls: the serial port, whose \<open>k\<close>-th call (constructor,
  \<open>write\<close>, \<open>read\<close> or \<open>read_all\<close>) has the outcome \<open>port_io k\<close>, and the clock, whose
  \<open>k\<close>-th reading is \<open>clock k\<close>. \<open>port_is_open\<close> is \<open>self.port and self.port.is_open\<close>;
  \<open>last_request_time\<close> is \<open>None\<close> until \<open>request\<close> first assigns the attribute.\<close>

record session =
  port_is_open :: bool
  lock_locked :: bool
  pending_payment :: "payment option"
  connect_state :: ConnectState
  connection_error :: bool
  last_check_time :: "real option"
  last_request_time :: "real option"
  error_counter :: int
  event_queue :: "queue_item list"
  logged :: "log_record list"
  written :: "byte list list"
  port_io :: "nat \<Rightarrow> io_result"
  port_io_calls :: nat
  clock :: "nat \<Rightarrow> real"
  clock_calls :: nat

text \<open>\<open>__init__\<close>, without the start of the polling thread.\<close>

definition Vendista_init :: "(nat \<Rightarrow> io_result) \<Rightarrow> (nat \<Rightarrow> real) \<Rightarrow> session" where
  "Vendista_init io clk =
     \<lparr> port_is_open = False, lock_locked = False, pending_payment = None,
       connect_state = NONE, connection_error = False, last_check_time = None,
       last_request_time = None, error_counter = 10, event_queue = [], logged = [],
       written = [], port_io = io, port_io_calls = 0, clock = clk, clock_calls = 0 \<rparr>"

subsection \<open>Statements\<close>

text \<open>A statement runs from a session state and raises or returns a value, in a new
  state; \<open>None\<close> is a statement that does not return (a lock that is never released, a
  loop that does not end, or the bound of the functions below reached).\<close>

type_synonym 'a prog = "session \<Rightarrow> ((exn + 'a) \<times> session) option"

definition return :: "'a \<Rightarrow> 'a prog" where
  "return x = (\<lambda>s. Some (Inr x, s))"

definition raise :: "exn \<Rightarrow> 'a prog" where
  "raise e = (\<lambda>s. Some (Inl e, s))"

definition and_then :: "'a prog \<Rightarrow> ('a \<Rightarrow> 'b prog) \<Rightarrow> 'b prog" where
  "and_then m f =
     (\<lambda>s. case m s of
            None \<Rightarrow> None
          | Some (Inl e, s') \<Rightarrow> Some (Inl e, s')
          | Some (Inr x, s') \<Rightarrow> f x s')"

definition gets :: "(session \<Rightarrow> 'a) \<Rightarrow> 'a prog" where
  "gets f = (\<lambda>s. Some (Inr (f s), s))"

definition modify :: "(session \<Rightarrow> session) \<Rightarrow> unit prog" where
  "modify f = (\<lambda>s. Some (Inr (), f s))"

text \<open>\<open>try: m except e: handler\<close>.\<close>

definition try_except :: "'a prog \<Rightarrow> exn \<Rightarrow> 'a prog \<Rightarrow> 'a prog" where
  "try_except m e handler =
     (\<lambda>s. case m s of
            None \<Rightarrow> None
          | Some (Inl e', s') \<Rightarrow> if e' = e then handler s' else Some (Inl e', s')
          | Some (Inr x, s') \<Rightarrow> Some (Inr x, s'))"

definition logger :: "log_record \<Rightarrow> unit prog" where
  "logger r = modify (\<lambda>s. s\<lparr>logged := logged s @ [r]\<rparr>)"

definition logger_all :: "log_record list \<Rightarrow> unit prog" where
  "logger_all rs = modify (\<lambda>s. s\<lparr>logged := logged s @ rs\<rparr>)"

definition queue_put :: "queue_item \<Rightarrow> unit prog" where
  "queue_put item = modify (\<lambda>s. s\<lparr>event_queue := event_queue s @ [item]\<rparr>)"

text \<open>\<open>time()\<close>.\<close>

definition now :: "real prog" where
  "now = (\<lambda>s. Some (Inr (clock s (clock_calls s)), s\<lparr>clock_calls := Suc (clock_calls s)\<rparr>))"

text \<open>One call on the serial port.\<close>

definition port_call :: "byte list prog" where
  "port_call =
     (\<lambda>s. let s' = s\<lparr>port_io_calls := Suc (port_io_calls s)\<rparr>
          in case port_io s (port_io_calls s) of
               Raises \<Rightarrow> Some (Inl SerialException, s')
             | Returns bs \<Rightarrow> Some (Inr bs, s'))"

text \<open>\<open>self.lock.acquire()\<close> waits while the lock is held; no other thread is modelled,
  so on a held lock it does not return. \<open>self.lock.release()\<close> raises \<open>RuntimeError\<close> on a
  lock that is not held.\<close>

definition lock_acquire :: "unit prog" where
  "lock_acquire = (\<lambda>s. if lock_locked s then None else Some (Inr (), s\<lparr>lock_locked := True\<rparr>))"

definition lock_release :: "unit prog" where
  "lock_release =
     (\<lambda>s. if lock_locked s then Some (Inr (), s\<lparr>lock_locked := False\<rparr>)
          else Some (Inl RuntimeError, s))"

text \<open>\<open>if self.error_counter < 10: self.error_counter += 1\<close>.\<close>

definition count_error :: "unit prog" where
  "count_error =
     modify (\<lambda>s. if error_counter s < 10 then s\<lparr>error_counter := error_counter s + 1\<rparr> else s)"

text \<open>\<open>if self.pending_payment is not None: self.pending_payment["time"] = time();
  self.pending_payment["active"] = False\<close>.\<close>

definition refresh_payment :: "unit prog" where
  "refresh_payment =
     and_then (gets pending_payment) (\<lambda>pending.
       case pending of
         None \<Rightarrow> return ()
       | Some p \<Rightarrow> and_then now (\<lambda>t.
           modify (\<lambda>s. s\<lparr>pending_payment := Some (p\<lparr>time := t, active := False\<rparr>)\<rparr>)))"

subsection \<open>Event dispatch: the parts of \<open>event\<close> that call no other method\<close>

definition hex_digit :: "nat \<Rightarrow> char" where
  "hex_digit n = ''0123456789abcdef'' ! n"

text \<open>\<open>binascii.hexlify(bytes(card)).decode()\<close>.\<close>

definition hexlify :: "byte list \<Rightarrow> string" where
  "hexlify bs = concat (map (\<lambda>b. [hex_digit (unat b div 16), hex_digit (unat b mod 16)]) bs)"

text \<open>The branch for \<open>CARD_READ_RESULT\<close>. \<open>packet_card_read_result = Struct('<B8s')\<close>:
  \<open>unpack_from\<close> raises \<open>struct.error\<close> on fewer than nine bytes.\<close>

definition event_card_read_result :: "byte list \<Rightarrow> unit prog" where
  "event_card_read_result data =
     (if length data < 9 then raise StructError
      else
        let result = data ! 0; card = take 8 (drop 1 data)
        in if result = 0x00 then and_then (logger Debug_card_not_found) (\<lambda>_. refresh_payment)
           else if result = 0x01 then and_then (logger Debug_card_not_readed) (\<lambda>_. refresh_payment)
           else if result = 0x02 then
             (let card_hex = hexlify card;
                  masked = take 4 card_hex @ ''********'' @ drop 12 card_hex
              in and_then (logger (Debug_card_readed masked)) (\<lambda>_.
                 and_then (gets pending_payment) (\<lambda>pending.
                   case pending of
                     None \<Rightarrow> return ()
                   | Some p \<Rightarrow> and_then now (\<lambda>t.
                       modify (\<lambda>s. s\<lparr>pending_payment :=
                         Some (p\<lparr>card_number := Some masked, time := t, active := False\<rparr>)\<rparr>)))))
           else return ())"

text \<open>The branch for \<open>CARD_AUTH_RESULT\<close>.\<close>

definition event_card_auth_result :: "Type \<Rightarrow> byte list \<Rightarrow> unit prog" where
  "event_card_auth_result packet_type data =
     and_then
       (if length data = 1 then
          (if data ! 0 = 0x01 then
             and_then (gets pending_payment) (\<lambda>pending.
               case pending of
                 None \<Rightarrow> return ()
               | Some p \<Rightarrow>
                   and_then (logger Debug_card_auth_ok) (\<lambda>_.
                     queue_put (Item_card_auth packet_type (amount p)
                       (case card_number p of Some c \<Rightarrow> c | None \<Rightarrow> []))))
           else logger Error_card_auth_fail)
        else logger (Debug_card_auth_len (length data)))
       (\<lambda>_. refresh_payment)"

text \<open>The branch for \<open>CONNECT_STATE_REPORT\<close> up to the log record of the new state; it
  returns whether the state reported differs from the current one, which is when the
  branch goes on to show a picture.\<close>

definition event_connect_state_report :: "Type \<Rightarrow> byte list \<Rightarrow> bool prog" where
  "event_connect_state_report packet_type data =
     (if length data = 1 then
        (let new_state = (case ConnectState_of_byte (data ! 0) of
                            Some c \<Rightarrow> c | None \<Rightarrow> NONE)
         in and_then (modify (\<lambda>s. s\<lparr>error_counter := 0\<rparr>)) (\<lambda>_.
            and_then (gets connect_state) (\<lambda>current.
            if new_state \<noteq> current then
              and_then (gets connection_error) (\<lambda>flag.
              and_then
                (if flag \<and> new_state = SERVER_CONNECTED then
                   queue_put (Item_connect_state packet_type (ConnectState_str new_state))
                 else if current = SERVER_CONNECTED then
                   and_then (modify (\<lambda>s. s\<lparr>connection_error := True\<rparr>)) (\<lambda>_.
                   queue_put (Item_connect_state packet_type (ConnectState_str new_state)))
                 else return ()) (\<lambda>_.
              and_then (modify (\<lambda>s. s\<lparr>connect_state := new_state\<rparr>)) (\<lambda>_.
              and_then (logger (Info_connect_state new_state)) (\<lambda>_.
              return True))))
            else return False)))
      else return False)"

subsection \<open>The request and response exchange\<close>

text \<open>What \<open>request\<close> returns: nothing, the packet type alone (for \<open>ACK\<close>), or the packet
  type and body of the response.\<close>

datatype reply = Reply_type Type | Reply_packet Type "byte list"

text \<open>Lines 217 to 220 of \<open>request\<close>: with the lock held, write the packet and read up to
  128 bytes, then release the lock.\<close>

definition exchange :: "byte list \<Rightarrow> byte list prog" where
  "exchange packet =
     and_then lock_acquire (\<lambda>_.
     and_then port_call (\<lambda>_.
     and_then (modify (\<lambda>s. s\<lparr>written := written s @ [packet]\<rparr>)) (\<lambda>_.
     and_then port_call (\<lambda>received.
     and_then lock_release (\<lambda>_.
     return received)))))"

text \<open>The handler \<open>except SerialException\<close> of \<open>request\<close>.\<close>

definition request_except :: "reply option prog" where
  "request_except =
     and_then lock_release (\<lambda>_.
     and_then count_error (\<lambda>_.
     and_then (logger Error_serial) (\<lambda>_.
     return None)))"

text \<open>\<open>request\<close>, \<open>open\<close>, \<open>show_picture\<close> and \<open>event\<close> call each other, and the loops of
  \<open>request\<close> over the rest of the bytes received (\<open>request_events\<close>) need not end: the
  first argument bounds the depth of calls and the number of iterations, and a function
  that reaches the bound does not return.\<close>

fun request :: "nat \<Rightarrow> Type \<Rightarrow> byte list option \<Rightarrow> reply option prog"
  and open_port :: "nat \<Rightarrow> unit prog"
  and show_picture :: "nat \<Rightarrow> Picture \<Rightarrow> bool prog"
  and event :: "nat \<Rightarrow> Type \<Rightarrow> byte list \<Rightarrow> unit prog"
  and request_events :: "nat \<Rightarrow> byte list \<Rightarrow> unit prog"
where
  "request 0 packet_type data = (\<lambda>s. None)"
| "request (Suc n) packet_type data =
     and_then (logger (Debug_send_packet packet_type (request_body packet_type data))) (\<lambda>_.
     case request_packet packet_type data of
       Inl e \<Rightarrow> raise e
     | Inr packet \<Rightarrow>
         and_then now (\<lambda>t.
         and_then (modify (\<lambda>s. s\<lparr>last_request_time := Some t\<rparr>)) (\<lambda>_.
         try_except
           (and_then (open_port n) (\<lambda>_.
            and_then (exchange packet) (\<lambda>received.
            if length received \<noteq> 0 then
              (case decode received of
                 (Inl e, received', records) \<Rightarrow> and_then (logger_all records) (\<lambda>_. raise e)
               | (Inr response, received', records) \<Rightarrow>
                   and_then (logger_all records) (\<lambda>_.
                   case response of
                     Some (response_type, body) \<Rightarrow>
                       if response_type = ACK then
                         and_then (modify (\<lambda>s. s\<lparr>error_counter := 0\<rparr>)) (\<lambda>_.
                         and_then (logger (Debug_response response_type)) (\<lambda>_.
                         and_then (request_events n received') (\<lambda>_.
                         return (Some (Reply_type response_type)))))
                       else
                         and_then (logger (Debug_response_body response_type body)) (\<lambda>_.
                         and_then (request_events n received') (\<lambda>_.
                         return (Some (Reply_packet response_type body))))
                   | None \<Rightarrow>
                       and_then count_error (\<lambda>_.
                       and_then (logger (Debug_bad_response received')) (\<lambda>_.
                       return None))))
            else
              and_then count_error (\<lambda>_.
              and_then (logger Debug_no_response) (\<lambda>_.
              return None)))))
           SerialException request_except)))"
| "open_port 0 = (\<lambda>s. None)"
| "open_port (Suc n) =
     and_then (gets port_is_open) (\<lambda>is_open.
     if is_open then return ()
     else
       and_then port_call (\<lambda>_.
       and_then (modify (\<lambda>s. s\<lparr>port_is_open := True\<rparr>)) (\<lambda>_.
       and_then (logger Info_port_opened) (\<lambda>_.
       and_then (show_picture n WAIT) (\<lambda>_.
       return ())))))"
| "show_picture 0 picture = (\<lambda>s. None)"
| "show_picture (Suc n) picture =
     and_then (request n SHOW_PICTURE (Some [Picture_value picture])) (\<lambda>result.
     return (result = Some (Reply_type ACK)))"
| "event 0 packet_type data = (\<lambda>s. None)"
| "event (Suc n) packet_type data =
     (if packet_type = TOUCH then queue_put (Item_touch packet_type)
      else if packet_type = CARD_READ_RESULT then event_card_read_result data
      else if packet_type = CARD_AUTH_RESULT then event_card_auth_result packet_type data
      else if packet_type = CONNECT_STATE_REPORT then
        and_then (event_connect_state_report packet_type data) (\<lambda>changed.
        if changed then
          and_then (gets connect_state) (\<lambda>state.
          and_then
            (if state = SERVER_CONNECTED then show_picture n SELECT_GOODS
             else show_picture n UNAVAILABLE) (\<lambda>_.
          return ()))
        else return ())
      else return ())"
| "request_events 0 received = (\<lambda>s. None)"
| "request_events (Suc n) received =
     (if length received > 0 then
        (case decode received of
           (Inl e, received', records) \<Rightarrow> and_then (logger_all records) (\<lambda>_. raise e)
         | (Inr result, received', records) \<Rightarrow>
             and_then (logger_all records) (\<lambda>_.
             case result of
               Some (packet_type, body) \<Rightarrow>
                 and_then (event n packet_type body) (\<lambda>_. request_events n received')
             | None \<Rightarrow> request_events n received'))
      else return ())"

definition get_connect_state :: "nat \<Rightarrow> bool prog" where
  "get_connect_state n =
     and_then (request n CONNECT_STATE_REQUEST None) (\<lambda>result.
     return (result = Some (Reply_type ACK)))"

definition close_payment :: "nat \<Rightarrow> unit prog" where
  "close_payment n =
     and_then (gets pending_payment) (\<lambda>pending.
     and_then
       (if pending \<noteq> None then
          and_then (modify (\<lambda>s. s\<lparr>pending_payment := None\<rparr>)) (\<lambda>_.
          logger Debug_close_payment)
        else return ()) (\<lambda>_.
     and_then (gets connect_state) (\<lambda>state.
     and_then
       (if state = SERVER_CONNECTED then show_picture n SELECT_GOODS
        else show_picture n UNAVAILABLE) (\<lambda>_.
     return ()))))"

subsection \<open>One pass of the inner loop of \<open>vendista_loop\<close>\<close>

text \<open>The pass runs with the port opened by \<open>open\<close>; the two enclosing loops, which end
  when another thread sets \<open>stop_request\<close>, are not modelled.

  \<open>with self.lock: received = self.port.read_all()\<close>: the lock is released when the read
  raises, too. On a session whose port was never opened \<open>self.port\<close> is \<open>None\<close>.\<close>

definition poll_receive :: "byte list prog" where
  "poll_receive =
     and_then lock_acquire (\<lambda>_.
     and_then (gets port_is_open) (\<lambda>is_open.
     if \<not> is_open then and_then lock_release (\<lambda>_. raise AttributeError)
     else
       try_except
         (and_then port_call (\<lambda>received.
          and_then lock_release (\<lambda>_.
          return received)))
         SerialException
         (and_then lock_release (\<lambda>_. raise SerialException))))"

text \<open>The loop under \<open># Parse events\<close>; \<open>read_all\<close> returns bytes, so the test
  \<open>received is not None\<close> before it holds.\<close>

fun parse_events :: "nat \<Rightarrow> byte list \<Rightarrow> unit prog" where
  "parse_events 0 received = (\<lambda>s. None)"
| "parse_events (Suc n) received =
     (if length received > 0 then
        (case decode received of
           (Inl e, received', records) \<Rightarrow> and_then (logger_all records) (\<lambda>_. raise e)
         | (Inr result, received', records) \<Rightarrow>
             and_then (logger_all records) (\<lambda>_.
             case result of
               Some (packet_type, body) \<Rightarrow>
                 and_then (event n packet_type body) (\<lambda>_. parse_events n received')
             | None \<Rightarrow>
                 and_then (get_connect_state n) (\<lambda>_. parse_events n received')))
      else return ())"

text \<open>The block under \<open># Check pending transaction\<close>.\<close>

definition check_pending_transaction :: "nat \<Rightarrow> unit prog" where
  "check_pending_transaction n =
     and_then (gets pending_payment) (\<lambda>pending.
     case pending of
       None \<Rightarrow> return ()
     | Some p \<Rightarrow>
         and_then now (\<lambda>t.
         let elapsed = t - time p;
             timeout = (if active p then 70 else 50)
         in if elapsed > timeout then close_payment n else return ()))"

text \<open>The block under \<open># Check connection status\<close>, up to the log record.\<close>

definition check_connection_status :: "unit prog" where
  "check_connection_status =
     and_then (gets error_counter) (\<lambda>counter.
     and_then (gets connect_state) (\<lambda>state.
     if counter = 0 \<and> state = NONE then
       modify (\<lambda>s. s\<lparr>connect_state := DISCONNECTED\<rparr>)
     else if counter > 5 \<and> ConnectState_value state > ConnectState_value NONE then
       and_then (modify (\<lambda>s. s\<lparr>connect_state := NONE\<rparr>)) (\<lambda>_.
       and_then (gets connect_state) (\<lambda>state'.
       logger (Error_connect_state state')))
     else return ()))"

text \<open>The periodic connect-state request that follows it.\<close>

definition check_connect_state_request :: "nat \<Rightarrow> unit prog" where
  "check_connect_state_request n =
     and_then (gets last_check_time) (\<lambda>last.
     and_then
       (case last of
          None \<Rightarrow> return True
        | Some l \<Rightarrow> and_then now (\<lambda>t. return (t - l > 10))) (\<lambda>due.
     if due then
       and_then now (\<lambda>t.
       and_then (modify (\<lambda>s. s\<lparr>last_check_time := Some t\<rparr>)) (\<lambda>_.
       and_then (get_connect_state n) (\<lambda>_.
       return ())))
     else return ()))"

text \<open>The block under \<open># Prevent sleep of terminal\<close>. Reading \<open>last_request_time\<close> before
  any request has assigned it raises \<open>AttributeError\<close>.\<close>

definition prevent_sleep :: "nat \<Rightarrow> unit prog" where
  "prevent_sleep n =
     and_then (gets last_request_time) (\<lambda>last.
     case last of
       None \<Rightarrow> raise AttributeError
     | Some l \<Rightarrow>
         and_then now (\<lambda>t.
         if t - l > 10 * 60 then
           and_then (gets connect_state) (\<lambda>state.
           and_then
             (if state = SERVER_CONNECTED then show_picture n SELECT_GOODS
              else show_picture n UNAVAILABLE) (\<lambda>_.
           return ()))
         else return ()))"

definition poll_tick :: "nat \<Rightarrow> unit prog" where
  "poll_tick n =
     and_then poll_receive (\<lambda>received.
     and_then (parse_events n received) (\<lambda>_.
     and_then (check_pending_transaction n) (\<lambda>_.
     and_then check_connection_status (\<lambda>_.
     and_then (check_connect_state_request n) (\<lambda>_.
     prevent_sleep n)))))"

text \<open>The handler \<open>except SerialException\<close> of \<open>vendista_loop\<close>.\<close>

definition vendista_loop_except :: "unit prog" where
  "vendista_loop_except =
     and_then (gets lock_locked) (\<lambda>locked.
     and_then (if locked then lock_release else return ()) (\<lambda>_.
     and_then (modify (\<lambda>s. s\<lparr>connect_state := NONE\<rparr>)) (\<lambda>_.
     logger Error_serial)))"

section \<open>Environments and observations used in the properties\<close>

text \<open>A port on which every call returns, reads with no bytes; a port on which every call
  raises; a port on which every read returns one \<open>ACK\<close> packet; a clock that always
  shows \<open>t\<close>.\<close>

definition silent_port :: "nat \<Rightarrow> io_result" where
  "silent_port k = Returns []"

definition failing_port :: "nat \<Rightarrow> io_result" where
  "failing_port k = Raises"

definition acking_port :: "nat \<Rightarrow> io_result" where
  "acking_port k = Returns [1, 0, 0x80, 0x82, 0x15]"

definition clock_at :: "real \<Rightarrow> nat \<Rightarrow> real" where
  "clock_at t k = t"

text \<open>The exchange of the next request fails: the write raises, or the read raises,
  returns no bytes, or returns bytes that \<open>decode\<close> rejects.\<close>

definition exchange_fails :: "session \<Rightarrow> bool" where
  "exchange_fails s =
     (case port_io s (port_io_calls s) of
        Raises \<Rightarrow> True
      | Returns _ \<Rightarrow>
          (case port_io s (Suc (port_io_calls s)) of
             Raises \<Rightarrow> True
           | Returns received \<Rightarrow> received = [] \<or> fst (decode received) = Inr None))"

text \<open>The bytes read by the exchange of the next request, when write and read return.\<close>

definition exchange_response :: "session \<Rightarrow> byte list option" where
  "exchange_response s =
     (case port_io s (port_io_calls s) of
        Raises \<Rightarrow> None
      | Returns _ \<Rightarrow>
          (case port_io s (Suc (port_io_calls s)) of
             Raises \<Rightarrow> None
           | Returns received \<Rightarrow> Some received))"

text \<open>The event queue holds the event of a connection loss: a connect-state item whose
  state is not \<open>SERVER_CONNECTED\<close>.\<close>

definition loss_reported :: "session \<Rightarrow> bool" where
  "loss_reported s =
     list_ex (\<lambda>item. case item of
                        Item_connect_state t d \<Rightarrow> d \<noteq> ConnectState_str SERVER_CONNECTED
                      | _ \<Rightarrow> False) (event_queue s)"

text \<open>No part of the bytes decodes to an \<open>ACK\<close> or to a connect-state report, at
  whatever offset decoding starts; and a port that only ever delivers such bytes.\<close>

definition no_reset_frame :: "byte list \<Rightarrow> bool" where
  "no_reset_frame bs =
     list_all (\<lambda>i. case fst (decode (drop i bs)) of
                       Inr (Some (t, body)) \<Rightarrow> t \<noteq> ACK \<and> t \<noteq> CONNECT_STATE_REPORT
                     | _ \<Rightarrow> True) [0 ..< Suc (length bs)]"

definition no_reset_port :: "(nat \<Rightarrow> io_result) \<Rightarrow> bool" where
  "no_reset_port io = (\<forall>k bs. io k = Returns bs \<longrightarrow> no_reset_frame bs)"

section \<open>Properties\<close>

text \<open>\<open>keeps I V m\<close>: from a state in \<open>I\<close>, whenever \<open>m\<close> raises or returns, the state is
  in \<open>I\<close> again and a value returned is in \<open>V\<close>.\<close>

definition keeps :: "(session \<Rightarrow> bool) \<Rightarrow> ('a \<Rightarrow> bool) \<Rightarrow> 'a prog \<Rightarrow> bool" where
  "keeps I V m =
     (\<forall>s r s'. I s \<longrightarrow> m s = Some (r, s') \<longrightarrow> I s' \<and> (\<forall>x. r = Inr x \<longrightarrow> V x))"

subsection \<open>The codec\<close>

lemma Type_of_byte_value: "Type_of_byte (Type_value t) = Some t"
  by (cases t) (simp_all add: Type_of_byte_def Type_members_def)

lemma hacker16_bound: "hacker16 data poly init xorout \<le> 65535"
proof -
  have "unat (w :: 16 word) < 2 ^ 16" for w
    using unsigned_less [of w] by simp
  then have "unat (w :: 16 word) \<le> 65535" for w
    by (simp add: less_Suc_eq_le [symmetric])
  then show ?thesis by (simp add: hacker16_def)
qed

lemma byte_of_nat_unat: "n < 256 \<Longrightarrow> unat (of_nat n :: byte) = n"
  by (simp add: unat_of_nat)

lemma header_roundtrip:
  assumes "n \<le> 65535" "c \<le> 65535"
  shows "\<exists>h. header_pack n c = Inr h \<and> length h = 4 \<and> header_unpack_from (h @ rest) = (n, c)"
proof -
  have "n div 256 < 256" "c div 256 < 256" using assms by auto
  then show ?thesis using assms
    by (simp add: header_pack_def header_unpack_from_def byte_of_nat_unat nth_append)
qed

text \<open>What \<open>decode\<close> does on a buffer that starts with a well-formed header for a body
  that is all there.\<close>

lemma decode_framed:
  assumes h: "length h = 4" "header_unpack_from (h @ body @ rest) = (length body, c)"
    and body: "body = b0 # payload"
  shows "decode (h @ body @ rest) =
     (if hacker16 body 0x8005 0xFFFF 0xFFFF \<noteq> c then (Inr None, rest, [Debug_invalid_crc])
      else case Type_of_byte b0 of
             None \<Rightarrow> (Inr None, rest, [Debug_unknown_type b0])
           | Some packet_type \<Rightarrow> (Inr (Some (packet_type, payload)), rest, []))"
proof -
  have len: "\<not> length (h @ body @ rest) < 5" using h(1) body by simp
  show ?thesis
    unfolding decode_def using h len
    by (simp add: Let_def) (simp add: body)
qed

lemma request_packet_framed:
  assumes "request_packet t d = Inr packet"
  shows "\<exists>h. packet = h @ request_body t d \<and> length h = 4 \<and>
           (\<forall>body rest. length body = length (request_body t d) \<longrightarrow>
              header_unpack_from (h @ body @ rest) =
                (length body, hacker16 (request_body t d) 0x8005 0xFFFF 0xFFFF))"
proof -
  let ?body = "request_body t d"
  let ?crc = "hacker16 ?body 0x8005 0xFFFF 0xFFFF"
  from assms obtain h where h: "header_pack (length ?body) ?crc = Inr h" "packet = h @ ?body"
    by (auto simp: request_packet_def Let_def split: sum.splits)
  then have n: "length ?body \<le> 65535"
    by (auto simp: header_pack_def split: if_splits)
  have hh: "h = [of_nat (length ?body mod 256), of_nat (length ?body div 256),
                 of_nat (?crc mod 256), of_nat (?crc div 256)]"
    using h(1) by (auto simp: header_pack_def split: if_splits)
  have c: "?crc \<le> 65535" by (rule hacker16_bound)
  have d: "length ?body div 256 < 256" "?crc div 256 < 256" using n c by auto
  show ?thesis
    using h(2) d
    by (intro exI [of _ h]) (simp add: hh header_unpack_from_def byte_of_nat_unat)
qed

lemma decode_request_packet:
  assumes "length (request_body t d) \<le> 65535"
  shows "\<exists>packet. request_packet t d = Inr packet \<and>
           decode (packet @ rest) =
             (Inr (Some (t, case d of Some p \<Rightarrow> p | None \<Rightarrow> [])), rest, [])"
proof -
  let ?body = "request_body t d"
  let ?crc = "hacker16 ?body 0x8005 0xFFFF 0xFFFF"
  have c: "?crc \<le> 65535" by (rule hacker16_bound)
  obtain h where h: "header_pack (length ?body) ?crc = Inr h" "length h = 4"
    "header_unpack_from (h @ (?body @ rest)) = (length ?body, ?crc)"
    using header_roundtrip [OF assms c] by blast
  have b: "?body = Type_value t # (case d of Some p \<Rightarrow> p | None \<Rightarrow> [])"
    by (simp add: request_body_def split: option.splits)
  have p: "request_packet t d = Inr (h @ ?body)"
    using h(1) by (simp add: request_packet_def Let_def)
  have "decode (h @ ?body @ rest) =
      (Inr (Some (t, case d of Some p \<Rightarrow> p | None \<Rightarrow> [])), rest, [])"
    using decode_framed [OF h(2) h(3) b] by (simp add: Type_of_byte_value)
  then show ?thesis using p by simp
qed

subsection \<open>The CRC tells apart two bodies that differ in one byte\<close>

lemma xor_right_cancel_word: "(a XOR x = b XOR x) = (a = b)" for a b x :: "'a::len word"
proof
  assume "a XOR x = b XOR x"
  then have "(a XOR x) XOR x = (b XOR x) XOR x" by simp
  then show "a = b" by (simp add: xor.assoc)
qed simp

lemma xor_left_cancel_word: "(x XOR a = x XOR b) = (a = b)" for a b x :: "'a::len word"
  using xor_right_cancel_word [of a x b] by (simp add: xor.commute)

lemma crc16_shift_inj:
  assumes "crc16_shift 0x8005 c = crc16_shift 0x8005 c'"
  shows "c = c'"
proof -
  have b0: "bit (crc16_shift 0x8005 x) 0 = bit x 15" for x :: "16 word"
    by (simp add: crc16_shift_def bit_0 even_xor_iff)
  have top: "bit c 15 = bit c' 15" using assms b0 by metis
  have "push_bit 1 c = push_bit 1 c'"
    using assms top by (auto simp: crc16_shift_def xor_right_cancel_word split: if_splits)
  then have low: "bit c n = bit c' n" if "n < 15" for n
    using that bit_push_bit_iff [of 1 c "Suc n"] bit_push_bit_iff [of 1 c' "Suc n"]
    by (simp add: bit_simps)
  show ?thesis
  proof (rule bit_word_eqI)
    fix n assume "n < LENGTH(16)"
    then have "n < 15 \<or> n = 15" by auto
    then show "bit c n = bit c' n" using low top by auto
  qed
qed

lemma crc16_shift_funpow_inj:
  "(crc16_shift 0x8005 ^^ k) c = (crc16_shift 0x8005 ^^ k) c' \<Longrightarrow> c = c'"
  by (induction k arbitrary: c c') (auto dest: crc16_shift_inj)

lemma crc16_byte_inj_state:
  "crc16_byte 0x8005 c b = crc16_byte 0x8005 c' b \<Longrightarrow> c = c'"
  by (auto simp: crc16_byte_def xor_right_cancel_word dest!: crc16_shift_funpow_inj)

lemma crc16_byte_inj_byte:
  assumes "crc16_byte 0x8005 c b = crc16_byte 0x8005 c b'"
  shows "b = b'"
proof -
  have "c XOR push_bit 8 (ucast b) = c XOR push_bit 8 (ucast b')"
    using assms by (auto simp: crc16_byte_def dest!: crc16_shift_funpow_inj)
  then have e: "push_bit 8 (ucast b :: 16 word) = push_bit 8 (ucast b')"
    by (simp add: xor_left_cancel_word)
  show ?thesis
  proof (rule bit_word_eqI)
    fix n assume n: "n < LENGTH(8)"
    have "bit (push_bit 8 (ucast b :: 16 word)) (n + 8)
        = bit (push_bit 8 (ucast b' :: 16 word)) (n + 8)"
      using e by simp
    then show "bit b n = bit b' n" using n by (simp add: bit_simps)
  qed
qed

lemma foldl_crc16_inj_state:
  "foldl (crc16_byte 0x8005) c xs = foldl (crc16_byte 0x8005) c' xs \<Longrightarrow> c = c'"
  by (induction xs arbitrary: c c') (auto dest: crc16_byte_inj_state)

lemma hacker16_single_byte:
  assumes "i < length body" "b \<noteq> body ! i"
  shows "hacker16 (body[i := b]) 0x8005 init xorout \<noteq> hacker16 body 0x8005 init xorout"
proof
  assume eq: "hacker16 (body[i := b]) 0x8005 init xorout = hacker16 body 0x8005 init xorout"
  have u: "body[i := b] = take i body @ b # drop (Suc i) body"
    using assms(1) by (simp add: upd_conv_take_nth_drop)
  have v: "body = take i body @ (body ! i) # drop (Suc i) body"
    using assms(1) by (simp add: id_take_nth_drop [symmetric])
  let ?s = "foldl (crc16_byte 0x8005) init (take i body)"
  have "foldl (crc16_byte 0x8005) init (body[i := b]) XOR xorout
        = foldl (crc16_byte 0x8005) init body XOR xorout"
    using eq by (simp add: hacker16_def word_unat_eq_iff)
  then have "foldl (crc16_byte 0x8005) init (body[i := b]) = foldl (crc16_byte 0x8005) init body"
    by (simp add: xor_right_cancel_word)
  then have "foldl (crc16_byte 0x8005) (crc16_byte 0x8005 ?s b) (drop (Suc i) body)
        = foldl (crc16_byte 0x8005) (crc16_byte 0x8005 ?s (body ! i)) (drop (Suc i) body)"
    by (subst (asm) u, subst (asm) (2) v) simp
  then have "crc16_byte 0x8005 ?s b = crc16_byte 0x8005 ?s (body ! i)"
    by (rule foldl_crc16_inj_state)
  then have "b = body ! i" by (rule crc16_byte_inj_byte)
  then show False using assms(2) by simp
qed

lemma flip_neq: "k < 8 \<Longrightarrow> (x :: byte) XOR push_bit k 1 \<noteq> x"
proof
  assume k: "k < 8" and "x XOR push_bit k 1 = x"
  then have "bit (x XOR push_bit k 1) k = bit x k" by simp
  then show False using k by (simp add: bit_simps)
qed

text \<open>Evaluating the CRC of given bytes.\<close>

lemma funpow_8: "(f ^^ 8) x = f (f (f (f (f (f (f (f x)))))))"
  by (simp add: eval_nat_numeral)

lemmas crc16_eval = hacker16_def crc16_byte_def crc16_shift_def funpow_8

text \<open>C1. For every packet type \<open>t\<close> and every payload \<open>p\<close> of at most 65534 bytes (the body
  length must fit the 16-bit length field), \<open>request\<close> builds a packet, and \<open>decode\<close> on a
  buffer holding exactly that packet returns \<open>(t, p)\<close>, leaves the buffer empty and logs
  nothing.\<close>

theorem decode_encode_roundtrip:
  assumes "length p \<le> 65534"
  shows "\<exists>packet. request_packet t (Some p) = Inr packet \<and>
           decode packet = (Inr (Some (t, p)), [], [])"
proof -
  have "length (request_body t (Some p)) \<le> 65535"
    using assms by (simp add: request_body_def)
  from decode_request_packet [OF this, of "[]"] show ?thesis by simp
qed

theorem decode_encode_roundtrip_witness:
  "\<exists>packet. request_packet SHOW_PICTURE (Some [9]) = Inr packet \<and>
     decode packet = (Inr (Some (SHOW_PICTURE, [9])), [], [])"
  using decode_encode_roundtrip [of "[9]" SHOW_PICTURE] by simp

text \<open>C7. On a buffer of fewer than 4 bytes, and on a buffer with fewer bytes than the
  length declared in its first two bytes plus 4, \<open>decode\<close> returns no frame and leaves the
  buffer as it was.\<close>

theorem decode_incomplete_unchanged:
  assumes "length data < 4 \<or> (4 \<le> length data \<and> length data < fst (header_unpack_from data) + 4)"
  shows "fst (decode data) = Inr None \<and> fst (snd (decode data)) = data"
proof (cases "length data < 5")
  case True
  then show ?thesis by (simp add: decode_def)
next
  case False
  obtain n c where u: "header_unpack_from data = (n, c)"
    by (cases "header_unpack_from data")
  with False assms have "length data < n + 4" by auto
  with False u show ?thesis
    by (simp add: decode_def)
qed

theorem decode_incomplete_unchanged_witness:
  "(length [5, 0, 0, 0, 1, 2 :: byte] < 4 \<or>
      (4 \<le> length [5, 0, 0, 0, 1, 2 :: byte] \<and>
       length [5, 0, 0, 0, 1, 2 :: byte] < fst (header_unpack_from [5, 0, 0, 0, 1, 2]) + 4)) \<and>
   fst (decode [5, 0, 0, 0, 1, 2]) = Inr None \<and>
   fst (snd (decode [5, 0, 0, 0, 1, 2])) = [5, 0, 0, 0, 1, 2]"
proof -
  have h: "length [5, 0, 0, 0, 1, 2 :: byte] < 4 \<or>
      (4 \<le> length [5, 0, 0, 0, 1, 2 :: byte] \<and>
       length [5, 0, 0, 0, 1, 2 :: byte] < fst (header_unpack_from [5, 0, 0, 0, 1, 2]) + 4)"
    by (simp add: header_unpack_from_def)
  from h decode_incomplete_unchanged [OF h] show ?thesis by blast
qed

text \<open>C8. Take the packet that \<open>request\<close> builds for any type and data, and flip one bit
  \<open>k\<close> of one byte \<open>i\<close> of its body (the type byte or the payload). On a buffer that starts
  with the corrupted packet, \<open>decode\<close> returns no frame, with the record of an invalid CRC,
  and removes the whole packet (declared length plus 4 bytes) from the buffer.\<close>

theorem decode_rejects_bit_flip:
  assumes "request_packet t d = Inr packet"
    and "i < length (request_body t d)"
    and "k < 8"
  shows "decode (packet[4 + i := packet ! (4 + i) XOR push_bit k 1] @ rest) =
           (Inr None, rest, [Debug_invalid_crc])"
proof -
  let ?body = "request_body t d"
  let ?body' = "?body[i := ?body ! i XOR push_bit k 1]"
  from request_packet_framed [OF assms(1)] obtain h where
    h: "packet = h @ ?body" "length h = 4"
    and u: "\<And>body rest. length body = length ?body \<Longrightarrow>
       header_unpack_from (h @ body @ rest) =
         (length body, hacker16 ?body 0x8005 0xFFFF 0xFFFF)"
    by blast
  have p: "packet[4 + i := packet ! (4 + i) XOR push_bit k 1] = h @ ?body'"
    using h by (simp add: list_update_append nth_append)
  obtain b0 payload where b: "?body' = b0 # payload"
    using assms(2) by (cases ?body') auto
  have crc: "hacker16 ?body' 0x8005 0xFFFF 0xFFFF \<noteq> hacker16 ?body 0x8005 0xFFFF 0xFFFF"
    using assms(2) flip_neq [OF assms(3)] by (intro hacker16_single_byte) auto
  have "decode (h @ ?body' @ rest) = (Inr None, rest, [Debug_invalid_crc])"
    using decode_framed [OF h(2) u [of ?body' rest] b] crc by simp
  then show ?thesis using p by simp
qed

theorem decode_rejects_bit_flip_witness:
  "request_packet SHOW_PICTURE (Some [9]) = Inr [2, 0, 196, 117, 3, 9] \<and>
   decode [2, 0, 196, 117, 3, 8] = (Inr None, [], [Debug_invalid_crc])"
proof -
  have a: "request_packet SHOW_PICTURE (Some [9]) = Inr [2, 0, 196, 117, 3, 9]"
    by (simp add: request_packet_def request_body_def header_pack_def crc16_eval)
  have b: "1 < length (request_body SHOW_PICTURE (Some [9]))"
    by (simp add: request_body_def)
  have c: "(0::nat) < 8" by simp
  from decode_rejects_bit_flip [OF a b c, of "[]"] a show ?thesis by simp
qed

subsection \<open>Invariants of statements\<close>


lemma keepsI:
  "(\<And>s r s'. I s \<Longrightarrow> m s = Some (r, s') \<Longrightarrow> I s' \<and> (\<forall>x. r = Inr x \<longrightarrow> V x)) \<Longrightarrow> keeps I V m"
  unfolding keeps_def by blast

lemma keepsD:
  "keeps I V m \<Longrightarrow> I s \<Longrightarrow> m s = Some (r, s') \<Longrightarrow> I s' \<and> (\<forall>x. r = Inr x \<longrightarrow> V x)"
  unfolding keeps_def by blast

lemma keeps_return: "V x \<Longrightarrow> keeps I V (return x)"
  by (simp add: keeps_def return_def)

lemma keeps_raise: "keeps I V (raise e)"
  by (simp add: keeps_def raise_def)

lemma keeps_never: "keeps I V (\<lambda>s. None)"
  by (simp add: keeps_def)

lemma keeps_gets: "keeps I (\<lambda>_. True) (gets f)"
  by (simp add: keeps_def gets_def)

lemma keeps_and_then:
  assumes m: "keeps I V m" and f: "\<And>x. V x \<Longrightarrow> keeps I W (f x)"
  shows "keeps I W (and_then m f)"
proof (rule keepsI)
  fix s r s'
  assume I: "I s" and run: "and_then m f s = Some (r, s')"
  show "I s' \<and> (\<forall>x. r = Inr x \<longrightarrow> W x)"
  proof (cases "m s")
    case None
    with run show ?thesis by (simp add: and_then_def)
  next
    case (Some a)
    obtain r1 s1 where a: "a = (r1, s1)" by (cases a)
    note m1 = keepsD [OF m I Some [unfolded a]]
    show ?thesis
    proof (cases r1)
      case (Inl e)
      with Some a run m1 show ?thesis by (auto simp: and_then_def)
    next
      case (Inr x)
      with Some a run have "f x s1 = Some (r, s')" by (simp add: and_then_def)
      moreover from m1 Inr have "I s1" "V x" by simp_all
      ultimately show ?thesis using keepsD [OF f] by blast
    qed
  qed
qed

lemma keeps_try_except:
  assumes m: "keeps I V m" and h: "keeps I V h"
  shows "keeps I V (try_except m e h)"
proof (rule keepsI)
  fix s r s'
  assume I: "I s" and run: "try_except m e h s = Some (r, s')"
  show "I s' \<and> (\<forall>x. r = Inr x \<longrightarrow> V x)"
  proof (cases "m s")
    case None
    with run show ?thesis by (simp add: try_except_def)
  next
    case (Some a)
    obtain r1 s1 where a: "a = (r1, s1)" by (cases a)
    note m1 = keepsD [OF m I Some [unfolded a]]
    show ?thesis
    proof (cases r1)
      case (Inl e')
      show ?thesis
      proof (cases "e' = e")
        case True
        with Some a Inl run have "h s1 = Some (r, s')" by (simp add: try_except_def)
        with m1 keepsD [OF h] show ?thesis by blast
      next
        case False
        with Some a Inl run m1 show ?thesis by (auto simp: try_except_def)
      qed
    next
      case (Inr x)
      with Some a run m1 show ?thesis by (auto simp: try_except_def)
    qed
  qed
qed

lemma keeps_weaken: "keeps I V m \<Longrightarrow> (\<And>x. V x \<Longrightarrow> W x) \<Longrightarrow> keeps I W m"
  unfolding keeps_def by blast

lemma keeps_modify: "(\<And>s. I s \<Longrightarrow> I (f s)) \<Longrightarrow> keeps I (\<lambda>_. True) (modify f)"
  by (simp add: keeps_def modify_def)

lemma keeps_exchange:
  assumes "keeps I (\<lambda>_. True) lock_acquire" "keeps I B port_call"
    "\<And>p. keeps I (\<lambda>_. True) (modify (\<lambda>s. s\<lparr>written := written s @ [p]\<rparr>))"
    "keeps I (\<lambda>_. True) lock_release"
  shows "keeps I B (exchange packet)"
  unfolding exchange_def
  apply (rule keeps_and_then [OF assms(1)])
  apply (rule keeps_and_then [OF keeps_weaken [OF assms(2), of "\<lambda>_. True"]], simp)
  apply (rule keeps_and_then [OF assms(3)])
  apply (rule keeps_and_then [OF assms(2)])
  apply (rule keeps_and_then [OF assms(4)])
  apply (erule keeps_return)
  done

lemma keeps_request_except:
  assumes "keeps I (\<lambda>_. True) lock_release" "keeps I (\<lambda>_. True) count_error"
    "\<And>r. keeps I (\<lambda>_. True) (logger r)"
  shows "keeps I (\<lambda>_. True) request_except"
  unfolding request_except_def
  apply (rule keeps_and_then [OF assms(1)])
  apply (rule keeps_and_then [OF assms(2)])
  apply (rule keeps_and_then [OF assms(3)])
  apply (rule keeps_return, simp)
  done



lemma session_keeps:
  fixes I :: "session \<Rightarrow> bool" and B :: "byte list \<Rightarrow> bool" and T :: "Type \<Rightarrow> bool"
  assumes lg: "\<And>r. keeps I (\<lambda>_. True) (logger r)"
    and lga: "\<And>rs. keeps I (\<lambda>_. True) (logger_all rs)"
    and qp: "\<And>i. keeps I (\<lambda>_. True) (queue_put i)"
    and nw: "keeps I (\<lambda>_. True) now"
    and pc: "keeps I B port_call"
    and la: "keeps I (\<lambda>_. True) lock_acquire"
    and lr: "keeps I (\<lambda>_. True) lock_release"
    and ce: "keeps I (\<lambda>_. True) count_error"
    and wr: "\<And>p. keeps I (\<lambda>_. True) (modify (\<lambda>s. s\<lparr>written := written s @ [p]\<rparr>))"
    and lrt: "\<And>t. keeps I (\<lambda>_. True) (modify (\<lambda>s. s\<lparr>last_request_time := Some t\<rparr>))"
    and po: "keeps I (\<lambda>_. True) (modify (\<lambda>s. s\<lparr>port_is_open := True\<rparr>))"
    and ack: "T ACK \<Longrightarrow> keeps I (\<lambda>_. True) (modify (\<lambda>s. s\<lparr>error_counter := 0\<rparr>))"
    and crr: "\<And>d. keeps I (\<lambda>_. True) (event_card_read_result d)"
    and car: "\<And>t d. keeps I (\<lambda>_. True) (event_card_auth_result t d)"
    and csr: "\<And>t d. T CONNECT_STATE_REPORT \<Longrightarrow> keeps I (\<lambda>_. True) (event_connect_state_report t d)"
    and dec: "\<And>buf r buf' l. B buf \<Longrightarrow> decode buf = (r, buf', l) \<Longrightarrow>
               B buf' \<and> (\<forall>t body. r = Inr (Some (t, body)) \<longrightarrow> T t)"
  shows "(\<forall>t d. keeps I (\<lambda>_. True) (request n t d)) \<and>
         keeps I (\<lambda>_. True) (open_port n) \<and>
         (\<forall>p. keeps I (\<lambda>_. True) (show_picture n p)) \<and>
         (\<forall>t d. T t \<longrightarrow> keeps I (\<lambda>_. True) (event n t d)) \<and>
         (\<forall>buf. B buf \<longrightarrow> keeps I (\<lambda>_. True) (request_events n buf))"
proof (induction n)
  case 0
  show ?case by (simp add: keeps_never)
next
  case (Suc n)
  then have req: "\<And>t d. keeps I (\<lambda>_. True) (request n t d)"
    and opn: "keeps I (\<lambda>_. True) (open_port n)"
    and pic: "\<And>p. keeps I (\<lambda>_. True) (show_picture n p)"
    and evt: "\<And>t d. T t \<Longrightarrow> keeps I (\<lambda>_. True) (event n t d)"
    and evs: "\<And>buf. B buf \<Longrightarrow> keeps I (\<lambda>_. True) (request_events n buf)"
    by simp_all
  have response: "keeps I (\<lambda>_. True)
      (case decode received of
         (Inl e, received', records) \<Rightarrow> and_then (logger_all records) (\<lambda>_. raise e)
       | (Inr response, received', records) \<Rightarrow>
           and_then (logger_all records) (\<lambda>_.
           case response of
             Some (response_type, body) \<Rightarrow>
               if response_type = ACK then
                 and_then (modify (\<lambda>s. s\<lparr>error_counter := 0\<rparr>)) (\<lambda>_.
                 and_then (logger (Debug_response response_type)) (\<lambda>_.
                 and_then (request_events n received') (\<lambda>_.
                 return (Some (Reply_type response_type)))))
               else
                 and_then (logger (Debug_response_body response_type body)) (\<lambda>_.
                 and_then (request_events n received') (\<lambda>_.
                 return (Some (Reply_packet response_type body))))
           | None \<Rightarrow>
               and_then count_error (\<lambda>_.
               and_then (logger (Debug_bad_response received')) (\<lambda>_.
               return None))))"
    if b: "B received" for received
  proof -
    obtain r received' records where d: "decode received = (r, received', records)"
      by (cases "decode received")
    note dd = dec [OF b d]
    show ?thesis
    proof (cases r)
      case (Inl e)
      with d show ?thesis
        by (simp add: keeps_and_then [OF lga] keeps_raise)
    next
      case (Inr response)
      show ?thesis
      proof (cases response)
        case None
        with d Inr show ?thesis
          by (auto intro!: keeps_and_then [OF lga] keeps_and_then [OF ce] keeps_and_then [OF lg]
              keeps_return)
      next
        case (Some a)
        obtain t body where a: "a = (t, body)" by (cases a)
        from dd Inr Some a have t: "T t" and b': "B received'" by simp_all
        show ?thesis
        proof (cases "t = ACK")
          case True
          with t have k: "keeps I (\<lambda>_. True) (modify (\<lambda>s. s\<lparr>error_counter := 0\<rparr>))"
            using ack by simp
          from d Inr Some a True show ?thesis
            by (auto intro!: keeps_and_then [OF lga] keeps_and_then [OF k] keeps_and_then [OF lg]
                keeps_and_then [OF evs [OF b']] keeps_return)
        next
          case False
          with d Inr Some a show ?thesis
            by (auto intro!: keeps_and_then [OF lga] keeps_and_then [OF lg]
                keeps_and_then [OF evs [OF b']] keeps_return)
        qed
      qed
    qed
  qed
  have 1: "keeps I (\<lambda>_. True) (request (Suc n) t d)" for t d
    unfolding request.simps
    apply (rule keeps_and_then [OF lg])
    apply (cases "request_packet t d")
     apply (simp add: keeps_raise)
    apply simp
    apply (rule keeps_and_then [OF nw])
    apply (rule keeps_and_then [OF lrt])
    apply (rule keeps_try_except [OF _ keeps_request_except [OF lr ce lg]])
    apply (rule keeps_and_then [OF opn])
    apply (rule keeps_and_then [OF keeps_exchange [OF la pc wr lr]])
    subgoal for packet t' u u' received
      using response [of received]
      by (auto intro!: keeps_and_then [OF ce] keeps_and_then [OF lg] keeps_return)
    done
  have 2: "keeps I (\<lambda>_. True) (open_port (Suc n))"
    unfolding open_port.simps
    by (auto intro!: keeps_and_then [OF keeps_gets] keeps_return
        keeps_and_then [OF keeps_weaken [OF pc, of "\<lambda>_. True"]] keeps_and_then [OF po]
        keeps_and_then [OF lg] keeps_and_then [OF pic])
  have 3: "keeps I (\<lambda>_. True) (show_picture (Suc n) p)" for p
    unfolding show_picture.simps
    by (auto intro!: keeps_and_then [OF req] keeps_return)
  have 4: "keeps I (\<lambda>_. True) (event (Suc n) t d)" if "T t" for t d
    unfolding event.simps using that
    by (auto intro!: qp crr car keeps_return keeps_and_then [OF csr] keeps_and_then [OF keeps_gets]
        keeps_and_then [OF pic])
  have 5: "keeps I (\<lambda>_. True) (request_events (Suc n) buf)" if b: "B buf" for buf
  proof -
    obtain r received' records where d: "decode buf = (r, received', records)"
      by (cases "decode buf")
    note dd = dec [OF b d]
    show ?thesis
    proof (cases r)
      case (Inl e)
      with d show ?thesis
        by (simp add: keeps_and_then [OF lga] keeps_raise keeps_return)
    next
      case (Inr result)
      show ?thesis
      proof (cases result)
        case None
        with d Inr dd show ?thesis
          by (auto intro!: keeps_and_then [OF lga] evs keeps_return)
      next
        case (Some a)
        obtain t body where a: "a = (t, body)" by (cases a)
        from dd Inr Some a have t: "T t" and b': "B received'" by simp_all
        from d Inr Some a show ?thesis
          by (auto intro!: keeps_and_then [OF lga] keeps_and_then [OF evt [OF t]] evs [OF b']
              keeps_return)
      qed
    qed
  qed
  from 1 2 3 4 5 show ?case by blast
qed



lemma keeps_seq:
  "keeps I (\<lambda>_. True) m \<Longrightarrow> (\<And>x. keeps I W (f x)) \<Longrightarrow> keeps I W (and_then m f)"
  by (rule keeps_and_then)

lemma loop_keeps:
  fixes I :: "session \<Rightarrow> bool" and B :: "byte list \<Rightarrow> bool" and T :: "Type \<Rightarrow> bool"
  assumes lg: "\<And>r. keeps I (\<lambda>_. True) (logger r)"
    and lga: "\<And>rs. keeps I (\<lambda>_. True) (logger_all rs)"
    and nw: "keeps I (\<lambda>_. True) now"
    and pc: "keeps I B port_call"
    and la: "keeps I (\<lambda>_. True) lock_acquire"
    and lr: "keeps I (\<lambda>_. True) lock_release"
    and pn: "keeps I (\<lambda>_. True) (modify (\<lambda>s. s\<lparr>pending_payment := None\<rparr>))"
    and lct: "\<And>t. keeps I (\<lambda>_. True) (modify (\<lambda>s. s\<lparr>last_check_time := Some t\<rparr>))"
    and ccs: "keeps I (\<lambda>_. True) check_connection_status"
    and dec: "\<And>buf r buf' l. B buf \<Longrightarrow> decode buf = (r, buf', l) \<Longrightarrow>
               B buf' \<and> (\<forall>t body. r = Inr (Some (t, body)) \<longrightarrow> T t)"
    and req: "\<And>n t d. keeps I (\<lambda>_. True) (request n t d)"
    and pic: "\<And>n p. keeps I (\<lambda>_. True) (show_picture n p)"
    and evt: "\<And>n t d. T t \<Longrightarrow> keeps I (\<lambda>_. True) (event n t d)"
  shows "keeps I (\<lambda>_. True) (poll_tick n)"
    and "keeps I (\<lambda>_. True) (close_payment n)"
    and "keeps I (\<lambda>_. True) (get_connect_state n)"
    and "keeps I (\<lambda>_. True) (check_pending_transaction n)"
    and "B buf \<Longrightarrow> keeps I (\<lambda>_. True) (parse_events n buf)"
proof -
  show gcs: "keeps I (\<lambda>_. True) (get_connect_state n)" for n
    unfolding get_connect_state_def
    by (auto intro!: keeps_and_then [OF req] keeps_return)
  show cp: "keeps I (\<lambda>_. True) (close_payment n)" for n
    unfolding close_payment_def
    by (auto intro!: keeps_seq keeps_gets pn lg pic keeps_return)
  show cpt: "keeps I (\<lambda>_. True) (check_pending_transaction n)" for n
    unfolding check_pending_transaction_def
    by (auto intro!: keeps_seq keeps_gets nw cp keeps_return
        simp: Let_def split: option.split)
  show pe: "keeps I (\<lambda>_. True) (parse_events n buf)" if "B buf" for n buf
    using that
  proof (induction n arbitrary: buf)
    case 0
    show ?case by (simp add: keeps_never)
  next
    case (Suc n)
    obtain r received' records where d: "decode buf = (r, received', records)"
      by (cases "decode buf")
    note dd = dec [OF Suc.prems d]
    show ?case
    proof (cases r)
      case (Inl e)
      with d show ?thesis
        by (simp add: keeps_and_then [OF lga] keeps_raise keeps_return)
    next
      case (Inr result)
      show ?thesis
      proof (cases result)
        case None
        with d Inr dd show ?thesis
          by (auto intro!: keeps_and_then [OF lga] keeps_and_then [OF gcs] Suc.IH keeps_return)
      next
        case (Some a)
        obtain t body where a: "a = (t, body)" by (cases a)
        from dd Inr Some a have t: "T t" and b': "B received'" by simp_all
        from d Inr Some a show ?thesis
          by (auto intro!: keeps_and_then [OF lga] keeps_and_then [OF evt [OF t]] Suc.IH [OF b']
              keeps_return)
      qed
    qed
  qed
  have rcv: "keeps I B poll_receive"
    unfolding poll_receive_def
    apply (rule keeps_and_then [OF la])
    apply (rule keeps_and_then [OF keeps_gets])
    apply (auto intro!: keeps_and_then [OF lr] keeps_raise keeps_try_except
        keeps_and_then [OF pc] keeps_return)
    done
  have ccr: "keeps I (\<lambda>_. True) (check_connect_state_request n)"
    unfolding check_connect_state_request_def
    by (auto intro!: keeps_seq keeps_gets keeps_return nw lct gcs split: option.split)
  have ps: "keeps I (\<lambda>_. True) (prevent_sleep n)"
    unfolding prevent_sleep_def
    by (auto intro!: keeps_seq keeps_gets keeps_raise nw pic keeps_return split: option.split)
  show "keeps I (\<lambda>_. True) (poll_tick n)"
    unfolding poll_tick_def
    apply (rule keeps_and_then [OF rcv])
    apply (rule keeps_and_then [OF pe], assumption)
    apply (rule keeps_and_then [OF cpt])
    apply (rule keeps_and_then [OF ccs])
    apply (rule keeps_and_then [OF ccr])
    apply (rule ps)
    done
qed

subsection \<open>The error counter\<close>

lemmas prog_defs = return_def raise_def and_then_def gets_def modify_def logger_def logger_all_def
  queue_put_def now_def port_call_def lock_acquire_def lock_release_def count_error_def
  try_except_def

lemmas event_defs = event_card_read_result_def event_card_auth_result_def
  event_connect_state_report_def refresh_payment_def

lemma counter_prims:
  fixes I :: "session \<Rightarrow> bool"
  defines "I \<equiv> \<lambda>s. 0 \<le> error_counter s \<and> error_counter s \<le> 10"
  shows "keeps I (\<lambda>_. True) (logger r)"
    "keeps I (\<lambda>_. True) (logger_all rs)"
    "keeps I (\<lambda>_. True) (queue_put i)"
    "keeps I (\<lambda>_. True) now"
    "keeps I (\<lambda>_. True) port_call"
    "keeps I (\<lambda>_. True) lock_acquire"
    "keeps I (\<lambda>_. True) lock_release"
    "keeps I (\<lambda>_. True) count_error"
    "keeps I (\<lambda>_. True) (modify (\<lambda>s. s\<lparr>written := written s @ [p]\<rparr>))"
    "keeps I (\<lambda>_. True) (modify (\<lambda>s. s\<lparr>last_request_time := Some t\<rparr>))"
    "keeps I (\<lambda>_. True) (modify (\<lambda>s. s\<lparr>port_is_open := True\<rparr>))"
    "keeps I (\<lambda>_. True) (modify (\<lambda>s. s\<lparr>pending_payment := None\<rparr>))"
    "keeps I (\<lambda>_. True) (modify (\<lambda>s. s\<lparr>last_check_time := Some t\<rparr>))"
    "keeps I (\<lambda>_. True) (modify (\<lambda>s. s\<lparr>error_counter := 0\<rparr>))"
    "keeps I (\<lambda>_. True) check_connection_status"
  unfolding I_def
  by (auto simp: keeps_def prog_defs check_connection_status_def Let_def
      split: io_result.splits if_splits)

lemma counter_events:
  fixes I :: "session \<Rightarrow> bool"
  defines "I \<equiv> \<lambda>s. 0 \<le> error_counter s \<and> error_counter s \<le> 10"
  shows "keeps I (\<lambda>_. True) (event_card_read_result d)"
    "keeps I (\<lambda>_. True) (event_card_auth_result t d)"
    "keeps I (\<lambda>_. True) (event_connect_state_report t d)"
  unfolding I_def
  by (auto simp: keeps_def event_defs prog_defs Let_def split: option.splits if_splits)

lemma counter_session:
  fixes I :: "session \<Rightarrow> bool"
  defines "I \<equiv> \<lambda>s. 0 \<le> error_counter s \<and> error_counter s \<le> 10"
  shows "(\<forall>t d. keeps I (\<lambda>_. True) (request n t d)) \<and>
   keeps I (\<lambda>_. True) (open_port n) \<and>
   (\<forall>p. keeps I (\<lambda>_. True) (show_picture n p)) \<and>
   (\<forall>t d. True \<longrightarrow> keeps I (\<lambda>_. True) (event n t d)) \<and>
   (\<forall>buf. True \<longrightarrow> keeps I (\<lambda>_. True) (request_events n buf))"
  unfolding I_def
  by (rule session_keeps [where B = "\<lambda>_. True" and T = "\<lambda>_. True"])
    (simp_all add: counter_prims counter_events)

lemma counter_loop:
  "keeps (\<lambda>s. 0 \<le> error_counter s \<and> error_counter s \<le> 10) (\<lambda>_. True) (poll_tick n)"
  by (rule loop_keeps(1) [where B = "\<lambda>_. True" and T = "\<lambda>_. True"])
    (simp_all add: counter_prims counter_session)

text \<open>A request on an open port, by the outcome of its exchange.\<close>

lemma request_exchange_fails:
  assumes "port_is_open s" "\<not> lock_locked s" "request_packet t d = Inr packet"
    and "error_counter s \<le> 10" and "exchange_fails s"
  shows "\<exists>s'. request (Suc (Suc n)) t d s = Some (Inr None, s') \<and>
           error_counter s' = min 10 (error_counter s + 1)"
proof (cases "port_io s (port_io_calls s)")
  case Raises
  with assms show ?thesis
    by (simp add: prog_defs exchange_def request_except_def Let_def)
next
  case w: (Returns w)
  show ?thesis
  proof (cases "port_io s (Suc (port_io_calls s))")
    case Raises
    with w assms show ?thesis
      by (simp add: prog_defs exchange_def request_except_def Let_def)
  next
    case (Returns received)
    show ?thesis
    proof (cases "received = []")
      case True
      with w Returns assms show ?thesis
        by (simp add: prog_defs exchange_def request_except_def Let_def)
    next
      case False
      with w Returns assms(5) have "fst (decode received) = Inr None"
        by (simp add: exchange_fails_def)
      then obtain rest records where "decode received = (Inr None, rest, records)"
        by (cases "decode received") auto
      with False w Returns assms show ?thesis
        by (simp add: prog_defs exchange_def request_except_def Let_def)
    qed
  qed
qed

lemma request_ack:
  assumes "port_is_open s" "\<not> lock_locked s" "request_packet t d = Inr packet"
    and "exchange_response s = Some received"
    and "received \<noteq> []" "decode received = (Inr (Some (ACK, body)), rest, records)"
  shows "request (Suc (Suc n)) t d s =
           try_except
             (and_then (request_events (Suc n) rest) (\<lambda>_. return (Some (Reply_type ACK))))
             SerialException request_except
             (s\<lparr>clock_calls := Suc (clock_calls s),
                last_request_time := Some (clock s (clock_calls s)),
                written := written s @ [packet],
                port_io_calls := Suc (Suc (port_io_calls s)),
                lock_locked := False, error_counter := 0,
                logged := logged s @ Debug_send_packet t (request_body t d) #
                            records @ [Debug_response ACK]\<rparr>)"
proof -
  from assms(4) obtain w where "port_io s (port_io_calls s) = Returns w"
    "port_io s (Suc (port_io_calls s)) = Returns received"
    by (auto simp: exchange_response_def split: io_result.splits)
  with assms show ?thesis
    by (simp add: prog_defs exchange_def request_except_def Let_def del: request_events.simps)
qed

lemma event_report:
  "\<exists>changed s1. event_connect_state_report CONNECT_STATE_REPORT [b] s = Some (Inr changed, s1) \<and>
     error_counter s1 = 0 \<and>
     event (Suc n) CONNECT_STATE_REPORT [b] s =
       (if changed then
          and_then (show_picture n (if connect_state s1 = SERVER_CONNECTED then SELECT_GOODS
                                    else UNAVAILABLE)) (\<lambda>_. return ()) s1
        else Some (Inr (), s1))"
  by (auto simp: event_connect_state_report_def prog_defs Let_def)

text \<open>C3, as stated, fails: a connect-state report whose payload is not one byte long
  leaves the counter as it is, here at 10.\<close>

theorem report_without_payload_keeps_counter:
  "event 1 CONNECT_STATE_REPORT [] (Vendista_init silent_port (clock_at 0)) =
     Some (Inr (), Vendista_init silent_port (clock_at 0)) \<and>
   error_counter (Vendista_init silent_port (clock_at 0)) = 10"
  by (simp add: event_connect_state_report_def prog_defs Vendista_init_def)

text \<open>C3, amended. From a counter within 0 to 10, whatever \<open>request\<close>, \<open>event\<close> and a pass of
  the polling loop do, the counter is within 0 to 10 when they return or raise. A request
  on an open port whose exchange fails (the write raises, or the read raises, returns no
  bytes or returns bytes that \<open>decode\<close> rejects) returns nothing and has added exactly 1
  to the counter, up to 10. When the response starts with an \<open>ACK\<close> frame the counter is 0
  before the rest of the response is dispatched, and when a connect-state report with a
  payload of exactly one byte is dispatched the counter is 0 before the picture is shown,
  whatever that byte.\<close>

theorem error_counter_range_and_updates:
  assumes "0 \<le> error_counter s" and "error_counter s \<le> 10"
  shows "(\<forall>r s'. request n t d s = Some (r, s') \<longrightarrow>
            0 \<le> error_counter s' \<and> error_counter s' \<le> 10) \<and>
         (\<forall>r s'. event n t data s = Some (r, s') \<longrightarrow>
            0 \<le> error_counter s' \<and> error_counter s' \<le> 10) \<and>
         (\<forall>r s'. poll_tick n s = Some (r, s') \<longrightarrow>
            0 \<le> error_counter s' \<and> error_counter s' \<le> 10) \<and>
         (port_is_open s \<and> \<not> lock_locked s \<and> length (request_body t d) \<le> 65535 \<and>
          exchange_fails s \<longrightarrow>
            (\<exists>s'. request (Suc (Suc n)) t d s = Some (Inr None, s') \<and>
                  error_counter s' = min 10 (error_counter s + 1))) \<and>
         (\<forall>received body rest records.
            port_is_open s \<and> \<not> lock_locked s \<and> length (request_body t d) \<le> 65535 \<and>
            exchange_response s = Some received \<and> received \<noteq> [] \<and>
            decode received = (Inr (Some (ACK, body)), rest, records) \<longrightarrow>
            (\<exists>s1. error_counter s1 = 0 \<and>
                  request (Suc (Suc n)) t d s =
                    try_except
                      (and_then (request_events (Suc n) rest)
                         (\<lambda>_. return (Some (Reply_type ACK))))
                      SerialException request_except s1)) \<and>
         (\<forall>b. \<exists>changed s1.
            event_connect_state_report CONNECT_STATE_REPORT [b] s = Some (Inr changed, s1) \<and>
            error_counter s1 = 0 \<and>
            event (Suc n) CONNECT_STATE_REPORT [b] s =
              (if changed then
                 and_then (show_picture n (if connect_state s1 = SERVER_CONNECTED
                                           then SELECT_GOODS else UNAVAILABLE))
                   (\<lambda>_. return ()) s1
               else Some (Inr (), s1)))"
proof (intro conjI allI impI)
  fix r s'
  assume "request n t d s = Some (r, s')"
  with counter_session [of n] assms
  show "0 \<le> error_counter s'" "error_counter s' \<le> 10"
    by (auto dest!: keepsD)
next
  fix r s'
  assume "event n t data s = Some (r, s')"
  with counter_session [of n] assms
  show "0 \<le> error_counter s'" "error_counter s' \<le> 10"
    by (auto dest!: keepsD)
next
  fix r s'
  assume "poll_tick n s = Some (r, s')"
  with counter_loop [of n] assms
  show "0 \<le> error_counter s'" "error_counter s' \<le> 10"
    by (auto dest!: keepsD)
next
  assume a: "port_is_open s \<and> \<not> lock_locked s \<and> length (request_body t d) \<le> 65535 \<and>
          exchange_fails s"
  then obtain packet where "request_packet t d = Inr packet"
    using decode_request_packet [of t d "[]"] by blast
  with a assms(2) show "\<exists>s'. request (Suc (Suc n)) t d s = Some (Inr None, s') \<and>
                  error_counter s' = min 10 (error_counter s + 1)"
    by (intro request_exchange_fails) auto
next
  fix received body rest records
  assume a: "port_is_open s \<and> \<not> lock_locked s \<and> length (request_body t d) \<le> 65535 \<and>
            exchange_response s = Some received \<and> received \<noteq> [] \<and>
            decode received = (Inr (Some (ACK, body)), rest, records)"
  then obtain packet where p: "request_packet t d = Inr packet"
    using decode_request_packet [of t d "[]"] by blast
  from a have "port_is_open s" "\<not> lock_locked s" "exchange_response s = Some received"
    "received \<noteq> []" "decode received = (Inr (Some (ACK, body)), rest, records)"
    by simp_all
  from request_ack [OF this(1,2) p this(3,4,5), of n]
  show "\<exists>s1. error_counter s1 = 0 \<and>
                  request (Suc (Suc n)) t d s =
                    try_except
                      (and_then (request_events (Suc n) rest)
                         (\<lambda>_. return (Some (Reply_type ACK))))
                      SerialException request_except s1"
    by (intro exI conjI; (assumption | simp))
next
  fix b
  show "\<exists>changed s1.
            event_connect_state_report CONNECT_STATE_REPORT [b] s = Some (Inr changed, s1) \<and>
            error_counter s1 = 0 \<and>
            event (Suc n) CONNECT_STATE_REPORT [b] s =
              (if changed then
                 and_then (show_picture n (if connect_state s1 = SERVER_CONNECTED
                                           then SELECT_GOODS else UNAVAILABLE))
                   (\<lambda>_. return ()) s1
               else Some (Inr (), s1))"
    by (rule event_report)
qed

theorem error_counter_range_and_updates_witness:
  "0 \<le> error_counter ((Vendista_init silent_port (clock_at 0))\<lparr>port_is_open := True\<rparr>) \<and>
   error_counter ((Vendista_init silent_port (clock_at 0))\<lparr>port_is_open := True\<rparr>) \<le> 10 \<and>
   exchange_fails ((Vendista_init silent_port (clock_at 0))\<lparr>port_is_open := True\<rparr>) \<and>
   (\<exists>s'. request (Suc (Suc 0)) CONNECT_STATE_REQUEST None
            ((Vendista_init silent_port (clock_at 0))\<lparr>port_is_open := True\<rparr>) =
              Some (Inr None, s') \<and>
         error_counter s' = 10)"
proof -
  let ?s = "(Vendista_init silent_port (clock_at 0))\<lparr>port_is_open := True\<rparr>"
  have h: "0 \<le> error_counter ?s" "error_counter ?s \<le> 10"
    by (simp_all add: Vendista_init_def)
  have f: "port_is_open ?s \<and> \<not> lock_locked ?s \<and>
      length (request_body CONNECT_STATE_REQUEST None) \<le> 65535 \<and> exchange_fails ?s"
    by (simp add: Vendista_init_def exchange_fails_def silent_port_def request_body_def)
  from error_counter_range_and_updates [OF h, of 0 CONNECT_STATE_REQUEST None] f
  have "\<exists>s'. request (Suc (Suc 0)) CONNECT_STATE_REQUEST None ?s = Some (Inr None, s') \<and>
      error_counter s' = min 10 (error_counter ?s + 1)"
    by blast
  then show ?thesis using h f by (simp add: Vendista_init_def)
qed

subsection \<open>The checks of the polling loop\<close>


text \<open>Nothing that \<open>request\<close> and \<open>event\<close> do creates a pending payment.\<close>

lemma no_payment_prims:
  fixes I :: "session \<Rightarrow> bool"
  defines "I \<equiv> \<lambda>s. pending_payment s = None"
  shows "keeps I (\<lambda>_. True) (logger r)"
    "keeps I (\<lambda>_. True) (logger_all rs)"
    "keeps I (\<lambda>_. True) (queue_put i)"
    "keeps I (\<lambda>_. True) now"
    "keeps I (\<lambda>_. True) port_call"
    "keeps I (\<lambda>_. True) lock_acquire"
    "keeps I (\<lambda>_. True) lock_release"
    "keeps I (\<lambda>_. True) count_error"
    "keeps I (\<lambda>_. True) (modify (\<lambda>s. s\<lparr>written := written s @ [p]\<rparr>))"
    "keeps I (\<lambda>_. True) (modify (\<lambda>s. s\<lparr>last_request_time := Some t\<rparr>))"
    "keeps I (\<lambda>_. True) (modify (\<lambda>s. s\<lparr>port_is_open := True\<rparr>))"
    "keeps I (\<lambda>_. True) (modify (\<lambda>s. s\<lparr>error_counter := 0\<rparr>))"
  unfolding I_def
  by (auto simp: keeps_def prog_defs Let_def split: io_result.splits if_splits)

lemma no_payment_events:
  fixes I :: "session \<Rightarrow> bool"
  defines "I \<equiv> \<lambda>s. pending_payment s = None"
  shows "keeps I (\<lambda>_. True) (event_card_read_result d)"
    "keeps I (\<lambda>_. True) (event_card_auth_result t d)"
    "keeps I (\<lambda>_. True) (event_connect_state_report t d)"
  unfolding I_def
  by (auto simp: keeps_def event_defs prog_defs Let_def split: option.splits if_splits)

lemma no_payment_session:
  fixes I :: "session \<Rightarrow> bool"
  defines "I \<equiv> \<lambda>s. pending_payment s = None"
  shows "(\<forall>t d. keeps I (\<lambda>_. True) (request n t d)) \<and>
   keeps I (\<lambda>_. True) (open_port n) \<and>
   (\<forall>p. keeps I (\<lambda>_. True) (show_picture n p)) \<and>
   (\<forall>t d. True \<longrightarrow> keeps I (\<lambda>_. True) (event n t d)) \<and>
   (\<forall>buf. True \<longrightarrow> keeps I (\<lambda>_. True) (request_events n buf))"
  unfolding I_def
  by (rule session_keeps [where B = "\<lambda>_. True" and T = "\<lambda>_. True"])
    (simp_all add: no_payment_prims no_payment_events)

lemma close_payment_expired:
  assumes "pending_payment s = Some p"
  shows "close_payment n s =
     and_then (show_picture n (if connect_state s = SERVER_CONNECTED then SELECT_GOODS
                               else UNAVAILABLE)) (\<lambda>_. return ())
       (s\<lparr>pending_payment := None, logged := logged s @ [Debug_close_payment]\<rparr>)"
  using assms by (simp add: close_payment_def prog_defs)

text \<open>The check of a pending payment \<open>p\<close> on its own, with \<open>t\<close> the time read: when
  \<open>t - time p\<close> exceeds 70 (\<open>active p\<close>) or 50 (otherwise), the payment is set to absent,
  the closing is logged, and the picture \<open>SELECT_GOODS\<close> (state \<open>SERVER_CONNECTED\<close>) or
  \<open>UNAVAILABLE\<close> is shown; otherwise the check returns at once with the payment as it
  was.\<close>

lemma check_pending_transaction_cases:
  assumes "pending_payment s = Some p"
  shows "(clock s (clock_calls s) - time p > (if active p then 70 else 50) \<longrightarrow>
            check_pending_transaction n s =
              and_then (show_picture n (if connect_state s = SERVER_CONNECTED then SELECT_GOODS
                                        else UNAVAILABLE)) (\<lambda>_. return ())
                (s\<lparr>clock_calls := Suc (clock_calls s), pending_payment := None,
                   logged := logged s @ [Debug_close_payment]\<rparr>)) \<and>
         (\<not> clock s (clock_calls s) - time p > (if active p then 70 else 50) \<longrightarrow>
            check_pending_transaction n s = Some (Inr (), s\<lparr>clock_calls := Suc (clock_calls s)\<rparr>)) \<and>
         (\<forall>r s'. check_pending_transaction n s = Some (r, s') \<longrightarrow>
            (pending_payment s' = None) =
              (clock s (clock_calls s) - time p > (if active p then 70 else 50)))"
proof -
  let ?expired = "clock s (clock_calls s) - time p > (if active p then 70 else 50)"
  let ?s1 = "s\<lparr>clock_calls := Suc (clock_calls s), pending_payment := None,
                   logged := logged s @ [Debug_close_payment]\<rparr>"
  let ?show = "and_then (show_picture n (if connect_state s = SERVER_CONNECTED then SELECT_GOODS
                                        else UNAVAILABLE)) (\<lambda>_. return ())"
  have a: "check_pending_transaction n s = ?show ?s1" if "?expired"
    using assms that
    close_payment_expired [of "s\<lparr>clock_calls := Suc (clock_calls s)\<rparr>" p n]
    by (simp add: check_pending_transaction_def gets_def and_then_def now_def Let_def)
  have b: "check_pending_transaction n s = Some (Inr (), s\<lparr>clock_calls := Suc (clock_calls s)\<rparr>)"
    if "\<not> ?expired"
    using assms that
    by (simp add: check_pending_transaction_def gets_def and_then_def now_def return_def Let_def)
  have k: "keeps (\<lambda>s. pending_payment s = None) (\<lambda>_. True) ?show"
    using no_payment_session [of n]
    by (auto intro!: keeps_seq keeps_return)
  have c: "(pending_payment s' = None) = ?expired"
    if run: "check_pending_transaction n s = Some (r, s')" for r s'
  proof (cases ?expired)
    case True
    with a run have "?show ?s1 = Some (r, s')" by simp
    from keepsD [OF k _ this] True show ?thesis by simp
  next
    case False
    with b run assms show ?thesis by auto
  qed
  from a b c show ?thesis by blast
qed

subsection \<open>The session after construction\<close>

lemma decode_rest_suffix: "decode buf = (r, buf', l) \<Longrightarrow> \<exists>k. buf' = drop k buf"
  by (auto simp: decode_def Let_def intro: exI [of _ 0]
      split: if_splits prod.splits list.splits option.splits)

lemma no_reset_frame_iff:
  "no_reset_frame bs =
     (\<forall>i\<le>length bs. case fst (decode (drop i bs)) of
        Inr (Some (t, body)) \<Rightarrow> t \<noteq> ACK \<and> t \<noteq> CONNECT_STATE_REPORT | _ \<Rightarrow> True)"
  unfolding no_reset_frame_def list_all_iff set_upt Ball_def atLeastLessThan_iff
  by (simp only: less_Suc_eq_le) simp

lemma no_reset_frame_drop:
  assumes "no_reset_frame bs"
  shows "no_reset_frame (drop k bs)"
  unfolding no_reset_frame_iff
proof (intro allI impI)
  fix i assume i: "i \<le> length (drop k bs)"
  show "case fst (decode (drop i (drop k bs))) of
          Inr (Some (t, body)) \<Rightarrow> t \<noteq> ACK \<and> t \<noteq> CONNECT_STATE_REPORT | _ \<Rightarrow> True"
  proof (cases "k \<le> length bs")
    case True
    with i have "i + k \<le> length bs" by simp
    with assms have "case fst (decode (drop (i + k) bs)) of
          Inr (Some (t, body)) \<Rightarrow> t \<noteq> ACK \<and> t \<noteq> CONNECT_STATE_REPORT | _ \<Rightarrow> True"
      unfolding no_reset_frame_iff by blast
    then show ?thesis by simp
  next
    case False
    then have "drop i (drop k bs) = []" by simp
    then show ?thesis by (simp add: decode_def)
  qed
qed

lemma no_reset_frame_decode:
  assumes "no_reset_frame buf" "decode buf = (r, buf', l)"
  shows "no_reset_frame buf' \<and>
     (\<forall>t body. r = Inr (Some (t, body)) \<longrightarrow> t \<noteq> ACK \<and> t \<noteq> CONNECT_STATE_REPORT)"
proof -
  from decode_rest_suffix [OF assms(2)] assms(1) have "no_reset_frame buf'"
    by (auto simp: no_reset_frame_drop)
  moreover from assms(1) have "case fst (decode (drop 0 buf)) of
      Inr (Some (t, body)) \<Rightarrow> t \<noteq> ACK \<and> t \<noteq> CONNECT_STATE_REPORT | _ \<Rightarrow> True"
    unfolding no_reset_frame_iff by blast
  with assms(2) have "\<forall>t body. r = Inr (Some (t, body)) \<longrightarrow> t \<noteq> ACK \<and> t \<noteq> CONNECT_STATE_REPORT"
    by auto
  ultimately show ?thesis by simp
qed

lemma unreset_prims:
  fixes I :: "session \<Rightarrow> bool"
  defines "I \<equiv> \<lambda>s. 0 < error_counter s \<and> connect_state s = NONE \<and> no_reset_port (port_io s)"
  shows "keeps I (\<lambda>_. True) (logger r)"
    "keeps I (\<lambda>_. True) (logger_all rs)"
    "keeps I (\<lambda>_. True) (queue_put i)"
    "keeps I (\<lambda>_. True) now"
    "keeps I no_reset_frame port_call"
    "keeps I (\<lambda>_. True) lock_acquire"
    "keeps I (\<lambda>_. True) lock_release"
    "keeps I (\<lambda>_. True) count_error"
    "keeps I (\<lambda>_. True) (modify (\<lambda>s. s\<lparr>written := written s @ [p]\<rparr>))"
    "keeps I (\<lambda>_. True) (modify (\<lambda>s. s\<lparr>last_request_time := Some t\<rparr>))"
    "keeps I (\<lambda>_. True) (modify (\<lambda>s. s\<lparr>port_is_open := True\<rparr>))"
    "keeps I (\<lambda>_. True) (modify (\<lambda>s. s\<lparr>pending_payment := None\<rparr>))"
    "keeps I (\<lambda>_. True) (modify (\<lambda>s. s\<lparr>last_check_time := Some t\<rparr>))"
    "keeps I (\<lambda>_. True) check_connection_status"
  unfolding I_def
  by (auto simp: keeps_def prog_defs check_connection_status_def no_reset_port_def Let_def
      split: io_result.splits if_splits)

lemma unreset_events:
  fixes I :: "session \<Rightarrow> bool"
  defines "I \<equiv> \<lambda>s. 0 < error_counter s \<and> connect_state s = NONE \<and> no_reset_port (port_io s)"
  shows "keeps I (\<lambda>_. True) (event_card_read_result d)"
    "keeps I (\<lambda>_. True) (event_card_auth_result t d)"
  unfolding I_def
  by (auto simp: keeps_def event_defs prog_defs Let_def split: option.splits if_splits)

lemma unreset_session:
  fixes I :: "session \<Rightarrow> bool"
  defines "I \<equiv> \<lambda>s. 0 < error_counter s \<and> connect_state s = NONE \<and> no_reset_port (port_io s)"
  shows "(\<forall>t d. keeps I (\<lambda>_. True) (request n t d)) \<and>
   keeps I (\<lambda>_. True) (open_port n) \<and>
   (\<forall>p. keeps I (\<lambda>_. True) (show_picture n p)) \<and>
   (\<forall>t d. t \<noteq> ACK \<and> t \<noteq> CONNECT_STATE_REPORT \<longrightarrow> keeps I (\<lambda>_. True) (event n t d)) \<and>
   (\<forall>buf. no_reset_frame buf \<longrightarrow> keeps I (\<lambda>_. True) (request_events n buf))"
  unfolding I_def
  by (rule session_keeps [where B = no_reset_frame
        and T = "\<lambda>t. t \<noteq> ACK \<and> t \<noteq> CONNECT_STATE_REPORT"])
    (simp_all add: unreset_prims unreset_events no_reset_frame_decode)

lemma unreset_loop:
  "keeps (\<lambda>s. 0 < error_counter s \<and> connect_state s = NONE \<and> no_reset_port (port_io s))
     (\<lambda>_. True) (poll_tick n)"
  by (rule loop_keeps(1) [where B = no_reset_frame
        and T = "\<lambda>t. t \<noteq> ACK \<and> t \<noteq> CONNECT_STATE_REPORT"])
    (simp_all add: unreset_prims unreset_session no_reset_frame_decode)

lemma no_reset_port_silent: "no_reset_port silent_port"
  by (simp add: no_reset_port_def silent_port_def no_reset_frame_iff decode_def)

text \<open>C10. A session as constructed has the counter at 10, the state \<open>NONE\<close> and no pending
  payment. The check of the connection status leaves a state \<open>NONE\<close> at \<open>NONE\<close> while the
  counter is not 0. And while the port delivers no bytes that decode, at any offset, to an
  \<open>ACK\<close> or to a connect-state report, every request and every pass of the polling loop
  leaves the counter above 0 and the state at \<open>NONE\<close>.\<close>

theorem initial_state_stays_none:
  "error_counter (Vendista_init io clk) = 10 \<and>
   connect_state (Vendista_init io clk) = NONE \<and>
   pending_payment (Vendista_init io clk) = None \<and>
   (error_counter s \<noteq> 0 \<and> connect_state s = NONE \<longrightarrow>
      (\<exists>s'. check_connection_status s = Some (Inr (), s') \<and> connect_state s' = NONE)) \<and>
   (0 < error_counter s \<and> connect_state s = NONE \<and> no_reset_port (port_io s) \<longrightarrow>
      (\<forall>r s'. request n t d s = Some (r, s') \<longrightarrow>
         0 < error_counter s' \<and> connect_state s' = NONE \<and> no_reset_port (port_io s')) \<and>
      (\<forall>r s'. poll_tick n s = Some (r, s') \<longrightarrow>
         0 < error_counter s' \<and> connect_state s' = NONE \<and> no_reset_port (port_io s')))"
proof (intro conjI impI allI)
  assume "error_counter s \<noteq> 0 \<and> connect_state s = NONE"
  then show "\<exists>s'. check_connection_status s = Some (Inr (), s') \<and> connect_state s' = NONE"
    by (simp add: check_connection_status_def prog_defs)
next
  fix r s'
  assume "0 < error_counter s \<and> connect_state s = NONE \<and> no_reset_port (port_io s)"
    and "request n t d s = Some (r, s')"
  with unreset_session [of n]
  show "0 < error_counter s'" "connect_state s' = NONE" "no_reset_port (port_io s')"
    by (auto dest!: keepsD)
next
  fix r s'
  assume "0 < error_counter s \<and> connect_state s = NONE \<and> no_reset_port (port_io s)"
    and "poll_tick n s = Some (r, s')"
  with unreset_loop [of n]
  show "0 < error_counter s'" "connect_state s' = NONE" "no_reset_port (port_io s')"
    by (auto dest!: keepsD)
qed (simp_all add: Vendista_init_def)

theorem initial_state_stays_none_witness:
  "request (Suc (Suc (Suc (Suc (Suc 0))))) CONNECT_STATE_REQUEST None
     (Vendista_init silent_port (clock_at 0)) =
   Some (Inr None, (Vendista_init silent_port (clock_at 0))\<lparr>port_is_open := True,
      clock_calls := 2, last_request_time := Some 0, port_io_calls := 5,
      written := [[2, 0, 196, 117, 3, 9], [1, 0, 158, 130, 16]],
      logged := [Debug_send_packet CONNECT_STATE_REQUEST [16], Info_port_opened,
                 Debug_send_packet SHOW_PICTURE [3, 9], Debug_no_response,
                 Debug_no_response]\<rparr>) \<and>
   0 < error_counter ((Vendista_init silent_port (clock_at 0))\<lparr>port_is_open := True,
      clock_calls := 2, last_request_time := Some 0, port_io_calls := 5,
      written := [[2, 0, 196, 117, 3, 9], [1, 0, 158, 130, 16]],
      logged := [Debug_send_packet CONNECT_STATE_REQUEST [16], Info_port_opened,
                 Debug_send_packet SHOW_PICTURE [3, 9], Debug_no_response,
                 Debug_no_response]\<rparr>) \<and>
   connect_state ((Vendista_init silent_port (clock_at 0))\<lparr>port_is_open := True,
      clock_calls := 2, last_request_time := Some 0, port_io_calls := 5,
      written := [[2, 0, 196, 117, 3, 9], [1, 0, 158, 130, 16]],
      logged := [Debug_send_packet CONNECT_STATE_REQUEST [16], Info_port_opened,
                 Debug_send_packet SHOW_PICTURE [3, 9], Debug_no_response,
                 Debug_no_response]\<rparr>) = NONE"
proof -
  let ?s = "Vendista_init silent_port (clock_at 0)"
  let ?s' = "?s\<lparr>port_is_open := True,
      clock_calls := 2, last_request_time := Some 0, port_io_calls := 5,
      written := [[2, 0, 196, 117, 3, 9], [1, 0, 158, 130, 16]],
      logged := [Debug_send_packet CONNECT_STATE_REQUEST [16], Info_port_opened,
                 Debug_send_packet SHOW_PICTURE [3, 9], Debug_no_response,
                 Debug_no_response]\<rparr>"
  have pk: "request_packet SHOW_PICTURE (Some [9]) = Inr [2, 0, 196, 117, 3, 9]"
    "request_packet CONNECT_STATE_REQUEST None = Inr [1, 0, 158, 130, 16]"
    by (simp_all add: request_packet_def request_body_def header_pack_def crc16_eval)
  have run: "request (Suc (Suc (Suc (Suc (Suc 0))))) CONNECT_STATE_REQUEST None ?s = Some (Inr None, ?s')"
    by (simp add: pk prog_defs exchange_def request_except_def Vendista_init_def
        silent_port_def clock_at_def request_body_def)
  have pre: "0 < error_counter ?s \<and> connect_state ?s = NONE \<and> no_reset_port (port_io ?s)"
    using no_reset_port_silent by (simp add: Vendista_init_def)
  from initial_state_stays_none
    [of silent_port "clock_at 0" ?s "Suc (Suc (Suc (Suc (Suc 0))))" CONNECT_STATE_REQUEST None]
    pre run
  have "0 < error_counter ?s' \<and> connect_state ?s' = NONE"
    by blast
  with run show ?thesis by simp
qed

subsection \<open>The flag \<open>connection_error\<close>\<close>

lemma ConnectState_str_connected:
  "(ConnectState_str c = ''Server connected'') = (c = SERVER_CONNECTED)"
  by (cases c) simp_all

lemma loss_reported_put:
  "loss_reported s \<Longrightarrow> loss_reported (s\<lparr>event_queue := event_queue s @ [item]\<rparr>)"
  by (simp add: loss_reported_def)

lemma flag_prims:
  fixes I :: "session \<Rightarrow> bool"
  assumes "I = connection_error \<or> I = (\<lambda>s. connection_error s \<longrightarrow> loss_reported s)"
  shows "keeps I (\<lambda>_. True) (logger r)"
    "keeps I (\<lambda>_. True) (logger_all rs)"
    "keeps I (\<lambda>_. True) (queue_put i)"
    "keeps I (\<lambda>_. True) now"
    "keeps I (\<lambda>_. True) port_call"
    "keeps I (\<lambda>_. True) lock_acquire"
    "keeps I (\<lambda>_. True) lock_release"
    "keeps I (\<lambda>_. True) count_error"
    "keeps I (\<lambda>_. True) (modify (\<lambda>s. s\<lparr>written := written s @ [p]\<rparr>))"
    "keeps I (\<lambda>_. True) (modify (\<lambda>s. s\<lparr>last_request_time := Some t\<rparr>))"
    "keeps I (\<lambda>_. True) (modify (\<lambda>s. s\<lparr>port_is_open := True\<rparr>))"
    "keeps I (\<lambda>_. True) (modify (\<lambda>s. s\<lparr>pending_payment := None\<rparr>))"
    "keeps I (\<lambda>_. True) (modify (\<lambda>s. s\<lparr>last_check_time := Some t\<rparr>))"
    "keeps I (\<lambda>_. True) (modify (\<lambda>s. s\<lparr>error_counter := 0\<rparr>))"
    "keeps I (\<lambda>_. True) check_connection_status"
  using assms
  by (auto simp: keeps_def prog_defs check_connection_status_def loss_reported_def Let_def
      split: io_result.splits if_splits)

lemma flag_events:
  fixes I :: "session \<Rightarrow> bool"
  assumes "I = connection_error \<or> I = (\<lambda>s. connection_error s \<longrightarrow> loss_reported s)"
  shows "keeps I (\<lambda>_. True) (event_card_read_result d)"
    "keeps I (\<lambda>_. True) (event_card_auth_result t d)"
    "keeps I (\<lambda>_. True) (event_connect_state_report t d)"
  using assms
  by (auto simp: keeps_def event_defs prog_defs loss_reported_def ConnectState_str_connected
      Let_def split: option.splits if_splits)

lemma flag_session:
  fixes I :: "session \<Rightarrow> bool"
  assumes "I = connection_error \<or> I = (\<lambda>s. connection_error s \<longrightarrow> loss_reported s)"
  shows "(\<forall>t d. keeps I (\<lambda>_. True) (request n t d)) \<and>
   keeps I (\<lambda>_. True) (open_port n) \<and>
   (\<forall>p. keeps I (\<lambda>_. True) (show_picture n p)) \<and>
   (\<forall>t d. True \<longrightarrow> keeps I (\<lambda>_. True) (event n t d)) \<and>
   (\<forall>buf. True \<longrightarrow> keeps I (\<lambda>_. True) (request_events n buf))"
  by (rule session_keeps [where B = "\<lambda>_. True" and T = "\<lambda>_. True"])
    (simp_all add: flag_prims [OF assms] flag_events [OF assms])

lemma flag_loop:
  fixes I :: "session \<Rightarrow> bool"
  assumes "I = connection_error \<or> I = (\<lambda>s. connection_error s \<longrightarrow> loss_reported s)"
  shows "keeps I (\<lambda>_. True) (poll_tick n)"
  by (rule loop_keeps(1) [where B = "\<lambda>_. True" and T = "\<lambda>_. True"])
    (simp_all add: flag_prims [OF assms] flag_session [OF assms])

text \<open>C5, as stated, fails: the report of \<open>SERVER_CONNECTED\<close> to a session that is
  \<open>DISCONNECTED\<close> with the flag set is a recovery, its event is put on the queue, and the
  flag is still set when \<open>event\<close> returns.\<close>

theorem flag_set_after_recovery:
  "event (Suc (Suc (Suc (Suc 0)))) CONNECT_STATE_REPORT [9]
     ((Vendista_init silent_port (clock_at 0))\<lparr>port_is_open := True,
        connect_state := DISCONNECTED, connection_error := True\<rparr>) =
   Some (Inr (), (Vendista_init silent_port (clock_at 0))\<lparr>port_is_open := True,
        connect_state := SERVER_CONNECTED, connection_error := True, error_counter := 1,
        event_queue := [Item_connect_state CONNECT_STATE_REPORT ''Server connected''],
        clock_calls := 1, last_request_time := Some 0, port_io_calls := 2,
        written := [[2, 0, 253, 245, 3, 2]],
        logged := [Info_connect_state SERVER_CONNECTED,
                   Debug_send_packet SHOW_PICTURE [3, 2], Debug_no_response]\<rparr>) \<and>
   connection_error ((Vendista_init silent_port (clock_at 0))\<lparr>port_is_open := True,
        connect_state := SERVER_CONNECTED, connection_error := True, error_counter := 1,
        event_queue := [Item_connect_state CONNECT_STATE_REPORT ''Server connected''],
        clock_calls := 1, last_request_time := Some 0, port_io_calls := 2,
        written := [[2, 0, 253, 245, 3, 2]],
        logged := [Info_connect_state SERVER_CONNECTED,
                   Debug_send_packet SHOW_PICTURE [3, 2], Debug_no_response]\<rparr>)"
proof -
  have pk: "request_packet SHOW_PICTURE (Some [2]) = Inr [2, 0, 253, 245, 3, 2]"
    by (simp add: request_packet_def request_body_def header_pack_def crc16_eval)
  have cs: "ConnectState_of_byte 9 = Some SERVER_CONNECTED"
    by (simp add: ConnectState_of_byte_def ConnectState_members_def)
  show ?thesis
    by (simp add: pk cs event_connect_state_report_def prog_defs exchange_def request_except_def
        Vendista_init_def silent_port_def clock_at_def request_body_def)
qed

text \<open>C5, amended. The flag is clear in a session as constructed. It is set only by the
  report of a loss (the current state is \<open>SERVER_CONNECTED\<close> and the state reported is
  another one), which also puts the event of the loss on the queue: whenever the flag is
  set, the queue has held such an event. Nothing clears the flag: once set, it is set
  after every request, event and pass of the polling loop, also after the report of a
  recovery, which puts its event on the queue and leaves the flag set.\<close>

theorem connection_error_set_on_loss_never_cleared:
  "\<not> connection_error (Vendista_init io clk) \<and>
   ((connection_error s \<longrightarrow> loss_reported s) \<longrightarrow>
      (\<forall>r s'. request n t d s = Some (r, s') \<longrightarrow> (connection_error s' \<longrightarrow> loss_reported s')) \<and>
      (\<forall>r s'. event n t data s = Some (r, s') \<longrightarrow> (connection_error s' \<longrightarrow> loss_reported s')) \<and>
      (\<forall>r s'. poll_tick n s = Some (r, s') \<longrightarrow> (connection_error s' \<longrightarrow> loss_reported s'))) \<and>
   (connection_error s \<longrightarrow>
      (\<forall>r s'. request n t d s = Some (r, s') \<longrightarrow> connection_error s') \<and>
      (\<forall>r s'. event n t data s = Some (r, s') \<longrightarrow> connection_error s') \<and>
      (\<forall>r s'. poll_tick n s = Some (r, s') \<longrightarrow> connection_error s')) \<and>
   (connect_state s = SERVER_CONNECTED \<and> ConnectState_of_byte b = Some c \<and>
    c \<noteq> SERVER_CONNECTED \<longrightarrow>
      event_connect_state_report CONNECT_STATE_REPORT [b] s =
        Some (Inr True, s\<lparr>error_counter := 0, connection_error := True,
          event_queue := event_queue s @
            [Item_connect_state CONNECT_STATE_REPORT (ConnectState_str c)],
          connect_state := c, logged := logged s @ [Info_connect_state c]\<rparr>)) \<and>
   (connection_error s \<and> connect_state s \<noteq> SERVER_CONNECTED \<and>
    ConnectState_of_byte b = Some SERVER_CONNECTED \<longrightarrow>
      event_connect_state_report CONNECT_STATE_REPORT [b] s =
        Some (Inr True, s\<lparr>error_counter := 0,
          event_queue := event_queue s @
            [Item_connect_state CONNECT_STATE_REPORT (ConnectState_str SERVER_CONNECTED)],
          connect_state := SERVER_CONNECTED,
          logged := logged s @ [Info_connect_state SERVER_CONNECTED]\<rparr>) \<and>
      (\<forall>r s'. event n CONNECT_STATE_REPORT [b] s = Some (r, s') \<longrightarrow> connection_error s'))"
proof -
  let ?J = "\<lambda>s. connection_error s \<longrightarrow> loss_reported s"
  have J1: "?J s'" if "?J s" and "request n t d s = Some (r, s')" for r s'
    using that flag_session [of ?J n] by (auto dest!: keepsD)
  have J2: "?J s'" if "?J s" and "event n t data s = Some (r, s')" for r s'
    using that flag_session [of ?J n] by (auto dest!: keepsD)
  have J3: "?J s'" if "?J s" and "poll_tick n s = Some (r, s')" for r s'
    using that flag_loop [of ?J n] by (auto dest!: keepsD)
  have F1: "connection_error s'"
    if "connection_error s" and "request n t d s = Some (r, s')" for r s'
    using that flag_session [of connection_error n] by (auto dest!: keepsD)
  have F2: "connection_error s'"
    if "connection_error s" and "event n t data s = Some (r, s')" for r s'
    using that flag_session [of connection_error n] by (auto dest!: keepsD)
  have F3: "connection_error s'"
    if "connection_error s" and "poll_tick n s = Some (r, s')" for r s'
    using that flag_loop [of connection_error n] by (auto dest!: keepsD)
  have R: "connection_error s'"
    if "connection_error s" and "event n CONNECT_STATE_REPORT [b] s = Some (r, s')" for r s'
    using that flag_session [of connection_error n]
    by (auto dest!: keepsD)
  have L: "event_connect_state_report CONNECT_STATE_REPORT [b] s =
        Some (Inr True, s\<lparr>error_counter := 0, connection_error := True,
          event_queue := event_queue s @
            [Item_connect_state CONNECT_STATE_REPORT (ConnectState_str c)],
          connect_state := c, logged := logged s @ [Info_connect_state c]\<rparr>)"
    if "connect_state s = SERVER_CONNECTED" "ConnectState_of_byte b = Some c"
      "c \<noteq> SERVER_CONNECTED"
    using that by (simp add: event_connect_state_report_def prog_defs)
  have V: "event_connect_state_report CONNECT_STATE_REPORT [b] s =
        Some (Inr True, s\<lparr>error_counter := 0,
          event_queue := event_queue s @
            [Item_connect_state CONNECT_STATE_REPORT (ConnectState_str SERVER_CONNECTED)],
          connect_state := SERVER_CONNECTED,
          logged := logged s @ [Info_connect_state SERVER_CONNECTED]\<rparr>)"
    if "connection_error s" "connect_state s \<noteq> SERVER_CONNECTED"
      "ConnectState_of_byte b = Some SERVER_CONNECTED"
    using that by (simp add: event_connect_state_report_def prog_defs)
  have init: "\<not> connection_error (Vendista_init io clk)"
    by (simp add: Vendista_init_def)
  from init J1 J2 J3 F1 F2 F3 R L V show ?thesis by blast
qed

theorem connection_error_set_on_loss_never_cleared_witness:
  "event_connect_state_report CONNECT_STATE_REPORT [1]
     ((Vendista_init silent_port (clock_at 0))\<lparr>connect_state := SERVER_CONNECTED\<rparr>) =
   Some (Inr True, (Vendista_init silent_port (clock_at 0))\<lparr>connect_state := DISCONNECTED,
     error_counter := 0, connection_error := True,
     event_queue := [Item_connect_state CONNECT_STATE_REPORT ''Disconnected''],
     logged := [Info_connect_state DISCONNECTED]\<rparr>) \<and>
   event_connect_state_report CONNECT_STATE_REPORT [9]
     ((Vendista_init silent_port (clock_at 0))\<lparr>connect_state := DISCONNECTED,
        connection_error := True\<rparr>) =
   Some (Inr True, (Vendista_init silent_port (clock_at 0))\<lparr>connect_state := SERVER_CONNECTED,
     error_counter := 0, connection_error := True,
     event_queue := [Item_connect_state CONNECT_STATE_REPORT ''Server connected''],
     logged := [Info_connect_state SERVER_CONNECTED]\<rparr>)"
proof -
  let ?a = "(Vendista_init silent_port (clock_at 0))\<lparr>connect_state := SERVER_CONNECTED\<rparr>"
  let ?b = "(Vendista_init silent_port (clock_at 0))\<lparr>connect_state := DISCONNECTED,
        connection_error := True\<rparr>"
  have c1: "ConnectState_of_byte 1 = Some DISCONNECTED"
    and c9: "ConnectState_of_byte 9 = Some SERVER_CONNECTED"
    by (simp_all add: ConnectState_of_byte_def ConnectState_members_def)
  have a: "connect_state ?a = SERVER_CONNECTED \<and> ConnectState_of_byte 1 = Some DISCONNECTED \<and>
      DISCONNECTED \<noteq> SERVER_CONNECTED"
    using c1 by simp
  have b: "connection_error ?b \<and> connect_state ?b \<noteq> SERVER_CONNECTED \<and>
      ConnectState_of_byte 9 = Some SERVER_CONNECTED"
    using c9 by simp
  from connection_error_set_on_loss_never_cleared [of silent_port "clock_at 0" ?a _ _ _ _ 1 DISCONNECTED] a
  have ra: "event_connect_state_report CONNECT_STATE_REPORT [1] ?a =
        Some (Inr True, ?a\<lparr>error_counter := 0, connection_error := True,
          event_queue := event_queue ?a @
            [Item_connect_state CONNECT_STATE_REPORT (ConnectState_str DISCONNECTED)],
          connect_state := DISCONNECTED, logged := logged ?a @ [Info_connect_state DISCONNECTED]\<rparr>)"
    by blast
  from connection_error_set_on_loss_never_cleared [of silent_port "clock_at 0" ?b _ _ _ _ 9] b
  have rb: "event_connect_state_report CONNECT_STATE_REPORT [9] ?b =
        Some (Inr True, ?b\<lparr>error_counter := 0,
          event_queue := event_queue ?b @
            [Item_connect_state CONNECT_STATE_REPORT (ConnectState_str SERVER_CONNECTED)],
          connect_state := SERVER_CONNECTED,
          logged := logged ?b @ [Info_connect_state SERVER_CONNECTED]\<rparr>)"
    by blast
  from ra rb show ?thesis by (simp add: Vendista_init_def)
qed

subsection \<open>A request when the port cannot be opened\<close>

lemma request_open_raises:
  assumes "\<not> port_is_open s" "\<not> lock_locked s" "request_packet t d = Inr packet"
    and "port_io s (port_io_calls s) = Raises"
  shows "request (Suc (Suc n)) t d s =
     Some (Inl RuntimeError,
       s\<lparr>clock_calls := Suc (clock_calls s),
          last_request_time := Some (clock s (clock_calls s)),
          port_io_calls := Suc (port_io_calls s),
          logged := logged s @ [Debug_send_packet t (request_body t d)]\<rparr>)"
  using assms
  by (simp add: prog_defs request_except_def Let_def)

text \<open>Once the port is open, a \<open>SerialException\<close> of the write or of the read is
  handled as the handler intends: the lock is released, the counter goes up by one (up
  to 10), the failure is logged and nothing is returned.\<close>

lemma request_exchange_raises:
  assumes "port_is_open s" "\<not> lock_locked s" "request_packet t d = Inr packet"
    and "port_io s (port_io_calls s) = Raises \<or>
         (port_io s (port_io_calls s) = Returns w \<and>
          port_io s (Suc (port_io_calls s)) = Raises)"
  shows "\<exists>s'. request (Suc (Suc n)) t d s = Some (Inr None, s') \<and>
           \<not> lock_locked s' \<and>
           error_counter s' =
             (if error_counter s < 10 then error_counter s + 1 else error_counter s) \<and>
           logged s' = logged s @ [Debug_send_packet t (request_body t d), Error_serial]"
  using assms
  by (auto simp: prog_defs exchange_def request_except_def Let_def)

text \<open>C4 fails on the code. On a session as constructed, whose lock is free, with a port
  that cannot be opened, \<open>request\<close> lets a \<open>RuntimeError\<close> escape to its caller: the
  handler of the \<open>SerialException\<close> releases a lock that was never acquired. The failure
  is not logged and the handler does not get to the counter.\<close>

theorem request_raises_when_open_fails:
  "request (Suc (Suc 0)) SHOW_PICTURE (Some [9]) (Vendista_init failing_port (clock_at 0)) =
     Some (Inl RuntimeError,
       (Vendista_init failing_port (clock_at 0))\<lparr>clock_calls := 1,
          last_request_time := Some 0, port_io_calls := 1,
          logged := [Debug_send_packet SHOW_PICTURE [3, 9]]\<rparr>)"
proof -
  have pk: "request_packet SHOW_PICTURE (Some [9]) = Inr [2, 0, 196, 117, 3, 9]"
    by (simp add: request_packet_def request_body_def header_pack_def crc16_eval)
  show ?thesis
    by (simp add: pk prog_defs request_except_def Vendista_init_def failing_port_def
        clock_at_def request_body_def)
qed

subsection \<open>The loop over the bytes received in a pass of the polling loop\<close>

lemma request_packet_no_data: "\<exists>packet. request_packet t None = Inr packet"
  using decode_request_packet [of t None "[]"] by (auto simp: request_body_def)

lemma request_on_silent_port:
  assumes "port_is_open s" "\<not> lock_locked s" "port_io s = silent_port"
  shows "request n t None s = None \<or>
     (\<exists>s'. request n t None s = Some (Inr None, s') \<and>
           port_is_open s' \<and> \<not> lock_locked s' \<and> port_io s' = silent_port)"
proof -
  obtain packet where pk: "request_packet t None = Inr packet"
    using request_packet_no_data by blast
  show ?thesis
  proof (cases n)
    case 0
    then show ?thesis by simp
  next
    case (Suc m)
    show ?thesis
    proof (cases m)
      case 0
      with Suc pk show ?thesis by (simp add: prog_defs)
    next
      case (Suc k)
      with \<open>n = Suc m\<close> pk assms show ?thesis
        by (simp add: prog_defs exchange_def request_except_def silent_port_def Let_def)
    qed
  qed
qed

lemma parse_events_never_returns:
  assumes "port_is_open s" "\<not> lock_locked s" "port_io s = silent_port"
    and "buf \<noteq> []" "fst (decode buf) = Inr None" "fst (snd (decode buf)) = buf"
  shows "parse_events n buf s = None"
  using assms(1-3)
proof (induction n arbitrary: s)
  case 0
  show ?case by simp
next
  case (Suc n)
  obtain records where d: "decode buf = (Inr None, buf, records)"
    using assms(5,6) by (cases "decode buf") auto
  let ?s1 = "s\<lparr>logged := logged s @ records\<rparr>"
  have idle: "port_is_open ?s1" "\<not> lock_locked ?s1" "port_io ?s1 = silent_port"
    using Suc.prems by simp_all
  have step: "parse_events (Suc n) buf s =
      and_then (get_connect_state n) (\<lambda>_. parse_events n buf) ?s1"
    using assms(4) d by (simp add: and_then_def logger_all_def modify_def)
  from request_on_silent_port [OF idle, of n CONNECT_STATE_REQUEST]
  show ?case
  proof
    assume "request n CONNECT_STATE_REQUEST None ?s1 = None"
    then show ?thesis
      unfolding step by (simp add: get_connect_state_def and_then_def)
  next
    assume "\<exists>s'. request n CONNECT_STATE_REQUEST None ?s1 = Some (Inr None, s') \<and>
        port_is_open s' \<and> \<not> lock_locked s' \<and> port_io s' = silent_port"
    then obtain s' where r: "request n CONNECT_STATE_REQUEST None ?s1 = Some (Inr None, s')"
      and idle': "port_is_open s'" "\<not> lock_locked s'" "port_io s' = silent_port"
      by blast
    from Suc.IH [OF idle'] have "parse_events n buf s' = None" .
    with r show ?thesis
      unfolding step by (simp add: get_connect_state_def and_then_def return_def)
  qed
qed

text \<open>C2 fails on the code. After a read that leaves bytes which \<open>decode\<close> rejects without
  removing any (one byte, or a header that declares more bytes than there are), the
  loop of the polling pass sends a connect-state request and decodes the same bytes
  again, without end: on a port that stays silent it returns for no number of
  iterations.\<close>

theorem parse_events_loops_on_residue:
  "(\<forall>n. parse_events n [0]
          ((Vendista_init silent_port (clock_at 0))\<lparr>port_is_open := True\<rparr>) = None) \<and>
   (\<forall>n. parse_events n [9, 0, 0, 0, 1]
          ((Vendista_init silent_port (clock_at 0))\<lparr>port_is_open := True\<rparr>) = None)"
proof -
  let ?s = "(Vendista_init silent_port (clock_at 0))\<lparr>port_is_open := True\<rparr>"
  have idle: "port_is_open ?s" "\<not> lock_locked ?s" "port_io ?s = silent_port"
    by (simp_all add: Vendista_init_def)
  have a: "[0 :: byte] \<noteq> []" "fst (decode [0]) = Inr None" "fst (snd (decode [0])) = [0]"
    by (simp_all add: decode_def)
  have b: "[9, 0, 0, 0, 1 :: byte] \<noteq> []" "fst (decode [9, 0, 0, 0, 1]) = Inr None"
    "fst (snd (decode [9, 0, 0, 0, 1])) = [9, 0, 0, 0, 1]"
    by (simp_all add: decode_def header_unpack_from_def)
  from parse_events_never_returns [OF idle a] parse_events_never_returns [OF idle b]
  show ?thesis by blast
qed

subsection \<open>The checks within a pass of the polling loop\<close>

text \<open>A pass whose read raises ends there, with that exception. A pass whose read and
  whose loop over the bytes received return goes on with the check of the pending
  payment, and one whose check of the pending payment returns, too, goes on with the
  check of the connection status.\<close>

lemma poll_tick_receive_raises:
  assumes "poll_receive s = Some (Inl e, s1)"
  shows "poll_tick n s = Some (Inl e, s1)"
  using assms by (simp add: poll_tick_def and_then_def)

lemma poll_receive_raises_fields:
  assumes "poll_receive s = Some (Inl e, s1)"
  shows "pending_payment s1 = pending_payment s \<and> connect_state s1 = connect_state s \<and>
         logged s1 = logged s \<and> error_counter s1 = error_counter s"
  using assms
  by (auto simp: poll_receive_def prog_defs Let_def split: if_splits io_result.splits)

lemma poll_tick_reaches_payment_check:
  assumes "poll_receive s = Some (Inr received, s1)"
    and "parse_events n received s1 = Some (Inr u, s2)"
  shows "poll_tick n s =
     and_then (check_pending_transaction n) (\<lambda>_.
     and_then check_connection_status (\<lambda>_.
     and_then (check_connect_state_request n) (\<lambda>_.
     prevent_sleep n))) s2"
  using assms by (simp add: poll_tick_def and_then_def)


lemma and_then_unit_run:
  assumes "m s = and_then m' (\<lambda>_. return ()) s'"
  shows "and_then m (\<lambda>_. f) s = and_then m' (\<lambda>_. f) s'"
proof (cases "m' s'")
  case None
  with assms show ?thesis by (simp add: and_then_def)
next
  case (Some a)
  obtain r s'' where a: "a = (r, s'')" by (cases a)
  show ?thesis
  proof (cases r)
    case (Inl e)
    with Some a assms show ?thesis by (simp add: and_then_def)
  next
    case (Inr x)
    with Some a assms show ?thesis by (simp add: and_then_def return_def)
  qed
qed


lemma pass_rest_keeps:
  assumes lg: "\<And>r. keeps I (\<lambda>_. True) (logger r)"
    and nw: "keeps I (\<lambda>_. True) now"
    and lct: "\<And>t. keeps I (\<lambda>_. True) (modify (\<lambda>s. s\<lparr>last_check_time := Some t\<rparr>))"
    and ccs: "keeps I (\<lambda>_. True) check_connection_status"
    and req: "\<And>n t d. keeps I (\<lambda>_. True) (request n t d)"
    and pic: "\<And>n p. keeps I (\<lambda>_. True) (show_picture n p)"
  shows "keeps I (\<lambda>_. True)
           (and_then (check_connect_state_request n) (\<lambda>_. prevent_sleep n))"
    and "keeps I (\<lambda>_. True)
           (and_then check_connection_status (\<lambda>_.
            and_then (check_connect_state_request n) (\<lambda>_. prevent_sleep n)))"
proof -
  have gcs: "keeps I (\<lambda>_. True) (get_connect_state n)"
    unfolding get_connect_state_def
    by (auto intro!: keeps_and_then [OF req] keeps_return)
  have ccr: "keeps I (\<lambda>_. True) (check_connect_state_request n)"
    unfolding check_connect_state_request_def
    by (auto intro!: keeps_seq keeps_gets keeps_return nw lct gcs split: option.split)
  have ps: "keeps I (\<lambda>_. True) (prevent_sleep n)"
    unfolding prevent_sleep_def
    by (auto intro!: keeps_seq keeps_gets keeps_raise nw pic keeps_return split: option.split)
  show r: "keeps I (\<lambda>_. True)
           (and_then (check_connect_state_request n) (\<lambda>_. prevent_sleep n))"
    by (intro keeps_seq ccr ps)
  show "keeps I (\<lambda>_. True)
           (and_then check_connection_status (\<lambda>_.
            and_then (check_connect_state_request n) (\<lambda>_. prevent_sleep n)))"
    by (intro keeps_seq ccs r)
qed

text \<open>Nothing but the closing of the payment makes a pending payment absent.\<close>

lemma payment_prims:
  fixes I :: "session \<Rightarrow> bool"
  defines "I \<equiv> \<lambda>s. \<exists>p. pending_payment s = Some p"
  shows "keeps I (\<lambda>_. True) (logger r)"
    "keeps I (\<lambda>_. True) (logger_all rs)"
    "keeps I (\<lambda>_. True) (queue_put i)"
    "keeps I (\<lambda>_. True) now"
    "keeps I (\<lambda>_. True) port_call"
    "keeps I (\<lambda>_. True) lock_acquire"
    "keeps I (\<lambda>_. True) lock_release"
    "keeps I (\<lambda>_. True) count_error"
    "keeps I (\<lambda>_. True) (modify (\<lambda>s. s\<lparr>written := written s @ [p]\<rparr>))"
    "keeps I (\<lambda>_. True) (modify (\<lambda>s. s\<lparr>last_request_time := Some t\<rparr>))"
    "keeps I (\<lambda>_. True) (modify (\<lambda>s. s\<lparr>port_is_open := True\<rparr>))"
    "keeps I (\<lambda>_. True) (modify (\<lambda>s. s\<lparr>last_check_time := Some t\<rparr>))"
    "keeps I (\<lambda>_. True) (modify (\<lambda>s. s\<lparr>error_counter := 0\<rparr>))"
    "keeps I (\<lambda>_. True) check_connection_status"
  unfolding I_def
  by (auto simp: keeps_def prog_defs check_connection_status_def Let_def
      split: io_result.splits if_splits)

lemma payment_events:
  fixes I :: "session \<Rightarrow> bool"
  defines "I \<equiv> \<lambda>s. \<exists>p. pending_payment s = Some p"
  shows "keeps I (\<lambda>_. True) (event_card_read_result d)"
    "keeps I (\<lambda>_. True) (event_card_auth_result t d)"
    "keeps I (\<lambda>_. True) (event_connect_state_report t d)"
  unfolding I_def
  by (auto simp: keeps_def event_defs prog_defs Let_def split: option.splits if_splits)

lemma payment_session:
  fixes I :: "session \<Rightarrow> bool"
  defines "I \<equiv> \<lambda>s. \<exists>p. pending_payment s = Some p"
  shows "(\<forall>t d. keeps I (\<lambda>_. True) (request n t d)) \<and>
   keeps I (\<lambda>_. True) (open_port n) \<and>
   (\<forall>p. keeps I (\<lambda>_. True) (show_picture n p)) \<and>
   (\<forall>t d. True \<longrightarrow> keeps I (\<lambda>_. True) (event n t d)) \<and>
   (\<forall>buf. True \<longrightarrow> keeps I (\<lambda>_. True) (request_events n buf))"
  unfolding I_def
  by (rule session_keeps [where B = "\<lambda>_. True" and T = "\<lambda>_. True"])
    (simp_all add: payment_prims payment_events)

lemma payment_pass_rest:
  "keeps (\<lambda>s. \<exists>p. pending_payment s = Some p) (\<lambda>_. True)
     (and_then check_connection_status (\<lambda>_.
      and_then (check_connect_state_request n) (\<lambda>_. prevent_sleep n)))"
  by (rule pass_rest_keeps(2)) (simp_all add: payment_prims payment_session)

lemma no_payment_more:
  "keeps (\<lambda>s. pending_payment s = None) (\<lambda>_. True)
     (modify (\<lambda>s. s\<lparr>last_check_time := Some t\<rparr>))"
  "keeps (\<lambda>s. pending_payment s = None) (\<lambda>_. True) check_connection_status"
  by (auto simp: keeps_def prog_defs check_connection_status_def)

lemma no_payment_pass_rest:
  "keeps (\<lambda>s. pending_payment s = None) (\<lambda>_. True)
     (and_then check_connection_status (\<lambda>_.
      and_then (check_connect_state_request n) (\<lambda>_. prevent_sleep n)))"
  by (rule pass_rest_keeps(2)) (simp_all add: no_payment_prims no_payment_more no_payment_session)

text \<open>C6, as stated, fails: in a pass whose read raises \<open>SerialException\<close>, a payment that
  is pending, active and 71 seconds old is still pending when the pass ends; the pass
  ends with the exception, for the handler of \<open>vendista_loop\<close>.\<close>

theorem overdue_payment_open_after_failed_read:
  "poll_tick (Suc (Suc (Suc (Suc 0))))
     ((Vendista_init failing_port (clock_at 71))\<lparr>port_is_open := True,
        pending_payment := Some \<lparr>amount = 150, active = True, time = 0, card_number = None\<rparr>\<rparr>) =
   Some (Inl SerialException,
     (Vendista_init failing_port (clock_at 71))\<lparr>port_is_open := True,
        pending_payment := Some \<lparr>amount = 150, active = True, time = 0, card_number = None\<rparr>,
        port_io_calls := 1\<rparr>)"
  by (simp add: poll_tick_def poll_receive_def prog_defs Vendista_init_def failing_port_def)

text \<open>C6, amended. In a pass of the polling loop whose read raises, the pass ends with
  that exception and the pending payment is as it was. In a pass whose read and whose
  loop over the bytes received return, and at which a payment \<open>p\<close> is then pending, with
  \<open>t\<close> the time read: when \<open>t - time p\<close> exceeds 70 (\<open>active p\<close>) or 50 (otherwise), the
  payment is set to absent, the closing is logged, the picture \<open>SELECT_GOODS\<close> (state
  \<open>SERVER_CONNECTED\<close>) or \<open>UNAVAILABLE\<close> is shown and the pass goes on with its other
  checks; otherwise the pass goes on with the payment as it was. However such a pass
  ends, the payment is absent at its end if and only if the time had run out.\<close>

theorem pass_pending_payment_timeout:
  "(poll_receive s = Some (Inl e, s1) \<longrightarrow>
      poll_tick n s = Some (Inl e, s1) \<and> pending_payment s1 = pending_payment s) \<and>
   (poll_receive s = Some (Inr received, s1) \<and>
    parse_events n received s1 = Some (Inr u, s2) \<and>
    pending_payment s2 = Some p \<longrightarrow>
      (clock s2 (clock_calls s2) - time p > (if active p then 70 else 50) \<longrightarrow>
         poll_tick n s =
           and_then (show_picture n (if connect_state s2 = SERVER_CONNECTED then SELECT_GOODS
                                     else UNAVAILABLE)) (\<lambda>_.
           and_then check_connection_status (\<lambda>_.
           and_then (check_connect_state_request n) (\<lambda>_.
           prevent_sleep n)))
             (s2\<lparr>clock_calls := Suc (clock_calls s2), pending_payment := None,
                 logged := logged s2 @ [Debug_close_payment]\<rparr>)) \<and>
      (\<not> clock s2 (clock_calls s2) - time p > (if active p then 70 else 50) \<longrightarrow>
         poll_tick n s =
           and_then check_connection_status (\<lambda>_.
           and_then (check_connect_state_request n) (\<lambda>_.
           prevent_sleep n))
             (s2\<lparr>clock_calls := Suc (clock_calls s2)\<rparr>)) \<and>
      (\<forall>r s'. poll_tick n s = Some (r, s') \<longrightarrow>
         (pending_payment s' = None) =
           (clock s2 (clock_calls s2) - time p > (if active p then 70 else 50))))"
proof (intro conjI impI)
  assume r: "poll_receive s = Some (Inl e, s1)"
  from poll_tick_receive_raises [OF r] show "poll_tick n s = Some (Inl e, s1)" .
  from poll_receive_raises_fields [OF r] show "pending_payment s1 = pending_payment s" by simp
next
  assume a: "poll_receive s = Some (Inr received, s1) \<and>
    parse_events n received s1 = Some (Inr u, s2) \<and> pending_payment s2 = Some p"
  let ?expired = "clock s2 (clock_calls s2) - time p > (if active p then 70 else 50)"
  let ?rest = "and_then check_connection_status (\<lambda>_.
           and_then (check_connect_state_request n) (\<lambda>_. prevent_sleep n))"
  let ?closed = "s2\<lparr>clock_calls := Suc (clock_calls s2), pending_payment := None,
                 logged := logged s2 @ [Debug_close_payment]\<rparr>"
  let ?open = "s2\<lparr>clock_calls := Suc (clock_calls s2)\<rparr>"
  let ?show = "show_picture n (if connect_state s2 = SERVER_CONNECTED then SELECT_GOODS
                                     else UNAVAILABLE)"
  from a have pend: "pending_payment s2 = Some p" by simp
  note cases = check_pending_transaction_cases [OF pend, of n]
  from a have rcv: "poll_receive s = Some (Inr received, s1)"
    and drain: "parse_events n received s1 = Some (Inr u, s2)"
    by simp_all
  have tick: "poll_tick n s =
     and_then (check_pending_transaction n) (\<lambda>_. ?rest) s2"
    by (rule poll_tick_reaches_payment_check [OF rcv drain])
  have x: "poll_tick n s = and_then ?show (\<lambda>_. ?rest) ?closed" if "?expired"
  proof -
    from cases that have "check_pending_transaction n s2 =
        and_then ?show (\<lambda>_. return ()) ?closed"
      by blast
    then show ?thesis
      unfolding tick by (rule and_then_unit_run)
  qed
  have y: "poll_tick n s = ?rest ?open" if "\<not> ?expired"
  proof -
    from cases that have "check_pending_transaction n s2 = Some (Inr (), ?open)"
      by blast
    then show ?thesis
      unfolding tick by (simp add: and_then_def)
  qed
  have kn: "keeps (\<lambda>s. pending_payment s = None) (\<lambda>_. True) (and_then ?show (\<lambda>_. ?rest))"
    using no_payment_session [of n] no_payment_pass_rest [of n]
    by (auto intro!: keeps_seq)
  have z: "(pending_payment s' = None) = ?expired" if run: "poll_tick n s = Some (r, s')" for r s'
  proof (cases ?expired)
    case True
    with x run have "and_then ?show (\<lambda>_. ?rest) ?closed = Some (r, s')" by simp
    from keepsD [OF kn _ this] True show ?thesis by simp
  next
    case False
    with y run have "?rest ?open = Some (r, s')" by simp
    from keepsD [OF payment_pass_rest _ this] pend False show ?thesis by simp
  qed
  from x show "?expired \<Longrightarrow> poll_tick n s = and_then ?show (\<lambda>_. ?rest) ?closed" .
  from y show "\<not> ?expired \<Longrightarrow> poll_tick n s = ?rest ?open" .
  from z show "\<forall>r s'. poll_tick n s = Some (r, s') \<longrightarrow> (pending_payment s' = None) = ?expired"
    by blast
qed

theorem pass_pending_payment_timeout_witness:
  "poll_tick (Suc (Suc (Suc (Suc 0))))
     ((Vendista_init silent_port (clock_at 71))\<lparr>port_is_open := True,
        pending_payment := Some \<lparr>amount = 150, active = True, time = 0, card_number = None\<rparr>,
        last_check_time := Some 71, last_request_time := Some 71\<rparr>) =
   Some (Inr (), (Vendista_init silent_port (clock_at 71))\<lparr>port_is_open := True,
        pending_payment := None, last_check_time := Some 71, last_request_time := Some 71,
        port_io_calls := 3, clock_calls := 4, written := [[2, 0, 193, 245, 3, 8]],
        logged := [Debug_close_payment, Debug_send_packet SHOW_PICTURE [3, 8],
                   Debug_no_response]\<rparr>) \<and>
   poll_tick (Suc (Suc (Suc (Suc 0))))
     ((Vendista_init silent_port (clock_at 69))\<lparr>port_is_open := True,
        pending_payment := Some \<lparr>amount = 150, active = True, time = 0, card_number = None\<rparr>,
        last_check_time := Some 69, last_request_time := Some 69\<rparr>) =
   Some (Inr (), (Vendista_init silent_port (clock_at 69))\<lparr>port_is_open := True,
        pending_payment := Some \<lparr>amount = 150, active = True, time = 0, card_number = None\<rparr>,
        last_check_time := Some 69, last_request_time := Some 69,
        port_io_calls := 1, clock_calls := 3\<rparr>)"
proof -
  let ?p = "\<lparr>amount = 150, active = True, time = 0, card_number = None\<rparr>"
  let ?n = "Suc (Suc (Suc (Suc 0)))"
  let ?a = "(Vendista_init silent_port (clock_at 71))\<lparr>port_is_open := True,
        pending_payment := Some ?p, last_check_time := Some 71, last_request_time := Some 71\<rparr>"
  let ?a1 = "?a\<lparr>port_io_calls := 1\<rparr>"
  let ?b = "(Vendista_init silent_port (clock_at 69))\<lparr>port_is_open := True,
        pending_payment := Some ?p, last_check_time := Some 69, last_request_time := Some 69\<rparr>"
  let ?b1 = "?b\<lparr>port_io_calls := 1\<rparr>"
  have pk: "request_packet SHOW_PICTURE (Some [8]) = Inr [2, 0, 193, 245, 3, 8]"
    by (simp add: request_packet_def request_body_def header_pack_def crc16_eval)
  have ra: "poll_receive ?a = Some (Inr [], ?a1)"
    and rb: "poll_receive ?b = Some (Inr [], ?b1)"
    by (simp_all add: poll_receive_def prog_defs Vendista_init_def silent_port_def)
  have da: "parse_events ?n [] ?a1 = Some (Inr (), ?a1)"
    and db: "parse_events ?n [] ?b1 = Some (Inr (), ?b1)"
    by (simp_all add: return_def)
  have pa: "pending_payment ?a1 = Some ?p" and pb: "pending_payment ?b1 = Some ?p"
    by simp_all
  have ea: "clock ?a1 (clock_calls ?a1) - time ?p > (if active ?p then 70 else 50)"
    and eb: "\<not> clock ?b1 (clock_calls ?b1) - time ?p > (if active ?p then 70 else 50)"
    by (simp_all add: Vendista_init_def clock_at_def)
  from pass_pending_payment_timeout
    [where s = ?a and n = ?n and received = "[]" and ?s1.0 = ?a1 and u = "()"
       and ?s2.0 = ?a1 and p = ?p] ra da pa ea
  have "poll_tick ?n ?a =
      and_then (show_picture ?n (if connect_state ?a1 = SERVER_CONNECTED then SELECT_GOODS
                                 else UNAVAILABLE)) (\<lambda>_.
      and_then check_connection_status (\<lambda>_.
      and_then (check_connect_state_request ?n) (\<lambda>_.
      prevent_sleep ?n)))
        (?a1\<lparr>clock_calls := Suc (clock_calls ?a1), pending_payment := None,
             logged := logged ?a1 @ [Debug_close_payment]\<rparr>)"
    by blast
  then have xa: "poll_tick ?n ?a =
      Some (Inr (), (Vendista_init silent_port (clock_at 71))\<lparr>port_is_open := True,
        pending_payment := None, last_check_time := Some 71, last_request_time := Some 71,
        port_io_calls := 3, clock_calls := 4, written := [[2, 0, 193, 245, 3, 8]],
        logged := [Debug_close_payment, Debug_send_packet SHOW_PICTURE [3, 8],
                   Debug_no_response]\<rparr>)"
    by (simp add: pk prog_defs exchange_def request_except_def Vendista_init_def
        silent_port_def clock_at_def request_body_def check_connection_status_def
        check_connect_state_request_def prevent_sleep_def)
  from pass_pending_payment_timeout
    [where s = ?b and n = ?n and received = "[]" and ?s1.0 = ?b1 and u = "()"
       and ?s2.0 = ?b1 and p = ?p] rb db pb eb
  have "poll_tick ?n ?b =
      and_then check_connection_status (\<lambda>_.
      and_then (check_connect_state_request ?n) (\<lambda>_.
      prevent_sleep ?n))
        (?b1\<lparr>clock_calls := Suc (clock_calls ?b1)\<rparr>)"
    by blast
  then have xb: "poll_tick ?n ?b =
      Some (Inr (), (Vendista_init silent_port (clock_at 69))\<lparr>port_is_open := True,
        pending_payment := Some ?p, last_check_time := Some 69, last_request_time := Some 69,
        port_io_calls := 1, clock_calls := 3\<rparr>)"
    by (simp add: prog_defs Vendista_init_def clock_at_def check_connection_status_def
        check_connect_state_request_def prevent_sleep_def)
  from xa xb show ?thesis by simp
qed












end
